theory Spec2Isabelle
  imports Complex_Main "HOL-Library.Word" "HOL-Library.AList"
begin

section \<open>Daemon port allocator (package port)\<close>

text \<open>
  The allocator of the daemon keeps a port range and three Go maps. A Go map is a
  partial function; \<open>len\<close> of a map is the cardinality of its domain. All mutating
  methods return their result together with the allocator after the call, so that an
  error path that leaves the allocator alone is visible as such. The mutex only
  serialises the methods and has no counterpart here.
\<close>

record Allocator =
  startPort :: int
  endPort :: int
  allocatedPorts :: "int \<rightharpoonup> bool"
  portToTestID :: "int \<rightharpoonup> string"
  testIDToPort :: "string \<rightharpoonup> int"

datatype alloc_error =
    InvalidStartPort int
  | InvalidEndPort int
  | StartNotLessThanEnd
  | NoAvailablePorts int int
  | InsufficientPorts int int
  | TestHasNoPort string
  | PortNotAllocated int
  | PanicMakeslice

text \<open>Indexing a \<open>map[int]bool\<close> with a missing key gives \<open>false\<close>.\<close>

definition lookup_bool :: "(int \<rightharpoonup> bool) \<Rightarrow> int \<Rightarrow> bool" where
  "lookup_bool m k = (case m k of None \<Rightarrow> False | Some b \<Rightarrow> b)"

text \<open>Indexing a \<open>map[int]string\<close> with a missing key gives the empty string.\<close>

definition lookup_string :: "(int \<rightharpoonup> string) \<Rightarrow> int \<Rightarrow> string" where
  "lookup_string m k = (case m k of None \<Rightarrow> [] | Some s \<Rightarrow> s)"

definition NewAllocator :: "int \<Rightarrow> int \<Rightarrow> alloc_error + Allocator" where
  "NewAllocator s e =
     (if s < 1 \<or> s > 65535 then Inl (InvalidStartPort s)
      else if e < 1 \<or> e > 65535 then Inl (InvalidEndPort e)
      else if s \<ge> e then Inl StartNotLessThanEnd
      else Inr \<lparr>startPort = s, endPort = e, allocatedPorts = Map.empty,
                portToTestID = Map.empty, testIDToPort = Map.empty\<rparr>)"

text \<open>
  The search loop of \<open>AllocatePort\<close>:
  \<^verbatim>\<open>for port := a.startPort; port <= a.endPort; port++ { if !a.allocatedPorts[port] {...return} }\<close>
\<close>

function first_free :: "(int \<rightharpoonup> bool) \<Rightarrow> int \<Rightarrow> int \<Rightarrow> int option" where
  "first_free m port e =
     (if port \<le> e
      then (if \<not> lookup_bool m port then Some port else first_free m (port + 1) e)
      else None)"
  by pat_completeness auto
termination
  by (relation "measure (\<lambda>(m, port, e). nat (e - port + 1))") auto

declare first_free.simps [simp del]

definition AllocatePort :: "Allocator \<Rightarrow> string \<Rightarrow> (alloc_error + int) \<times> Allocator" where
  "AllocatePort a testID =
     (case testIDToPort a testID of
        Some port \<Rightarrow> (Inr port, a)
      | None \<Rightarrow>
          (case first_free (allocatedPorts a) (startPort a) (endPort a) of
             Some port \<Rightarrow>
               (Inr port,
                a\<lparr>allocatedPorts := (allocatedPorts a)(port \<mapsto> True),
                  portToTestID := (portToTestID a)(port \<mapsto> testID),
                  testIDToPort := (testIDToPort a)(testID \<mapsto> port)\<rparr>)
           | None \<Rightarrow> (Inl (NoAvailablePorts (startPort a) (endPort a)), a)))"

text \<open>
  The collecting loop of \<open>AllocatePorts\<close>:
  \<^verbatim>\<open>for port := a.startPort; port <= a.endPort && len(ports) < count; port++ {
      if !a.allocatedPorts[port] { ports = append(ports, port) } }\<close>
\<close>

function collect_free :: "(int \<rightharpoonup> bool) \<Rightarrow> int \<Rightarrow> int \<Rightarrow> int \<Rightarrow> int list \<Rightarrow> int list" where
  "collect_free m port e count ports =
     (if port \<le> e \<and> int (length ports) < count
      then collect_free m (port + 1) e count
             (if \<not> lookup_bool m port then ports @ [port] else ports)
      else ports)"
  by pat_completeness auto
termination
  by (relation "measure (\<lambda>(m, port, e, count, ports). nat (e - port + 1))") auto

declare collect_free.simps [simp del]

text \<open>The marking loop \<^verbatim>\<open>for _, port := range ports { a.allocatedPorts[port] = true }\<close>.\<close>

fun mark_allocated :: "(int \<rightharpoonup> bool) \<Rightarrow> int list \<Rightarrow> (int \<rightharpoonup> bool)" where
  "mark_allocated m [] = m"
| "mark_allocated m (port # ports) = mark_allocated (m(port \<mapsto> True)) ports"

text \<open>
  \<open>make([]int, 0, count)\<close> panics in Go when \<open>count\<close> is negative; that happens
  before anything is written. (Running out of memory for a huge \<open>count\<close> is not
  modelled.)
\<close>

definition AllocatePorts :: "Allocator \<Rightarrow> int \<Rightarrow> (alloc_error + int list) \<times> Allocator" where
  "AllocatePorts a count =
     (if count < 0 then (Inl PanicMakeslice, a)
      else
        (let ports = collect_free (allocatedPorts a) (startPort a) (endPort a) count []
         in if int (length ports) < count
            then (Inl (InsufficientPorts count (int (length ports))), a)
            else (Inr ports, a\<lparr>allocatedPorts := mark_allocated (allocatedPorts a) ports\<rparr>)))"

definition ReleasePort :: "Allocator \<Rightarrow> string \<Rightarrow> (alloc_error + unit) \<times> Allocator" where
  "ReleasePort a testID =
     (case testIDToPort a testID of
        None \<Rightarrow> (Inl (TestHasNoPort testID), a)
      | Some port \<Rightarrow>
          (Inr (),
           a\<lparr>allocatedPorts := (allocatedPorts a)(port := None),
             portToTestID := (portToTestID a)(port := None),
             testIDToPort := (testIDToPort a)(testID := None)\<rparr>))"

definition ReleasePortByNumber :: "Allocator \<Rightarrow> int \<Rightarrow> (alloc_error + unit) \<times> Allocator" where
  "ReleasePortByNumber a port =
     (if \<not> lookup_bool (allocatedPorts a) port then (Inl (PortNotAllocated port), a)
      else
        (let testID = lookup_string (portToTestID a) port
         in (Inr (),
             a\<lparr>allocatedPorts := (allocatedPorts a)(port := None),
               portToTestID := (portToTestID a)(port := None),
               testIDToPort := (testIDToPort a)(testID := None)\<rparr>)))"

definition ReleaseAll :: "Allocator \<Rightarrow> Allocator" where
  "ReleaseAll a =
     a\<lparr>allocatedPorts := Map.empty, portToTestID := Map.empty, testIDToPort := Map.empty\<rparr>"

definition IsPortAllocated :: "Allocator \<Rightarrow> int \<Rightarrow> bool" where
  "IsPortAllocated a port = lookup_bool (allocatedPorts a) port"

definition GetAllocatedCount :: "Allocator \<Rightarrow> int" where
  "GetAllocatedCount a = int (card (dom (allocatedPorts a)))"

definition GetAvailableCount :: "Allocator \<Rightarrow> int" where
  "GetAvailableCount a =
     (let totalPorts = endPort a - startPort a + 1
      in totalPorts - int (card (dom (allocatedPorts a))))"

definition GetCapacity :: "Allocator \<Rightarrow> int" where
  "GetCapacity a = endPort a - startPort a + 1"

text \<open>One call on the allocator, as a value; \<open>alloc_step\<close> gives the allocator after it.\<close>

datatype alloc_op =
    OpAllocatePort string
  | OpAllocatePorts int
  | OpReleasePort string
  | OpReleasePortByNumber int
  | OpReleaseAll

fun alloc_step :: "Allocator \<Rightarrow> alloc_op \<Rightarrow> Allocator" where
  "alloc_step a (OpAllocatePort t) = snd (AllocatePort a t)"
| "alloc_step a (OpAllocatePorts c) = snd (AllocatePorts a c)"
| "alloc_step a (OpReleasePort t) = snd (ReleasePort a t)"
| "alloc_step a (OpReleasePortByNumber p) = snd (ReleasePortByNumber a p)"
| "alloc_step a OpReleaseAll = ReleaseAll a"


definition alloc_run :: "Allocator \<Rightarrow> alloc_op list \<Rightarrow> Allocator" where
  "alloc_run a ops = foldl alloc_step a ops"

text \<open>The allocator \<open>NewAllocator 5201 5205\<close> of the package's tests, and the one of
  scenario E2.\<close>

definition alloc_5201_5205 :: Allocator where
  "alloc_5201_5205 = \<lparr>startPort = 5201, endPort = 5205, allocatedPorts = Map.empty,
                       portToTestID = Map.empty, testIDToPort = Map.empty\<rparr>"



text \<open>
  Consistency of the three indices. \<open>tests_mapped\<close>: every test-id entry has the
  matching port entry and its port is marked allocated. \<open>ports_mapped\<close>: every port
  marked allocated has a port entry whose test id maps back to it.
\<close>

definition tests_mapped :: "Allocator \<Rightarrow> bool" where
  "tests_mapped a \<longleftrightarrow>
     (\<forall>t p. testIDToPort a t = Some p \<longrightarrow> portToTestID a p = Some t \<and> IsPortAllocated a p)"

definition ports_mapped :: "Allocator \<Rightarrow> bool" where
  "ports_mapped a \<longleftrightarrow>
     (\<forall>p. IsPortAllocated a p \<longrightarrow>
        (\<exists>t. portToTestID a p = Some t \<and> testIDToPort a t = Some p))"

fun is_AllocatePorts :: "alloc_op \<Rightarrow> bool" where
  "is_AllocatePorts (OpAllocatePorts c) = True"
| "is_AllocatePorts _ = False"


section \<open>Daemon capacity accountant (package process)\<close>

text \<open>
  Go's \<open>int\<close> is a 64-bit two's-complement integer on the platforms the daemon is
  built for; \<open>wrap64\<close> is the value an arithmetic result has after wrap-around.
\<close>

definition wrap64 :: "int \<Rightarrow> int" where
  "wrap64 x = (x + 2 ^ 63) mod 2 ^ 64 - 2 ^ 63"

record CapacityCalculator =
  maxProcesses :: int
  usedSlots :: int

datatype capacity_error = InsufficientCapacity int int

definition NewCapacityCalculator :: "int \<Rightarrow> CapacityCalculator" where
  "NewCapacityCalculator maxp = \<lparr>maxProcesses = maxp, usedSlots = 0\<rparr>"

definition ReserveSlots ::
  "CapacityCalculator \<Rightarrow> int \<Rightarrow> (capacity_error + unit) \<times> CapacityCalculator" where
  "ReserveSlots c count =
     (if wrap64 (usedSlots c + count) > maxProcesses c
      then (Inl (InsufficientCapacity count (wrap64 (maxProcesses c - usedSlots c))), c)
      else (Inr (), c\<lparr>usedSlots := wrap64 (usedSlots c + count)\<rparr>))"

definition ReleaseSlots :: "CapacityCalculator \<Rightarrow> int \<Rightarrow> CapacityCalculator" where
  "ReleaseSlots c count =
     (let c1 = c\<lparr>usedSlots := wrap64 (usedSlots c - count)\<rparr>
      in if usedSlots c1 < 0 then c1\<lparr>usedSlots := 0\<rparr> else c1)"

definition GetAvailableSlots :: "CapacityCalculator \<Rightarrow> int" where
  "GetAvailableSlots c = wrap64 (maxProcesses c - usedSlots c)"

definition GetUsedSlots :: "CapacityCalculator \<Rightarrow> int" where
  "GetUsedSlots c = usedSlots c"

datatype capacity_op = OpReserve int | OpRelease int

fun capacity_step :: "CapacityCalculator \<Rightarrow> capacity_op \<Rightarrow> CapacityCalculator" where
  "capacity_step c (OpReserve n) = snd (ReserveSlots c n)"
| "capacity_step c (OpRelease n) = ReleaseSlots c n"

definition capacity_run :: "CapacityCalculator \<Rightarrow> capacity_op list \<Rightarrow> CapacityCalculator" where
  "capacity_run c ops = foldl capacity_step c ops"

fun op_count :: "capacity_op \<Rightarrow> int" where
  "op_count (OpReserve n) = n"
| "op_count (OpRelease n) = n"

text \<open>A count that is not negative and cannot push \<open>used + count\<close> past the largest
  64-bit integer while \<open>used\<close> is at most \<open>maxp\<close>.\<close>

definition count_ok :: "int \<Rightarrow> int \<Rightarrow> bool" where
  "count_ok maxp n \<longleftrightarrow> 0 \<le> n \<and> n \<le> 2 ^ 63 - 1 - maxp"

section \<open>Daemon result collector (package collector)\<close>

text \<open>
  Times are Unix seconds. \<open>IperfResult\<close> is the result type of the iperf wrapper; a
  \<open>nil\<close> pointer argument is \<open>None\<close>.
\<close>

record IperfResult =
  Success :: bool
  JSONOutput :: string
  ExitCode :: int
  Error :: string
  ResStartTime :: int
  ResEndTime :: int

record CollectedResult =
  CollTestID :: string
  CollSourceID :: string
  CollDestinationID :: string
  CollStatus :: string
  CollIperfJSON :: string
  CollErrorMessage :: string
  CollStartTime :: int
  CollEndTime :: int
  CollExitCode :: int

record Collector =
  results :: "string \<rightharpoonup> CollectedResult"
  completed :: int
  failed :: int
  resultDir :: string

datatype collector_error = ResultNil | TestIDEmpty | ResultNotFound string

definition NewCollector :: "string \<Rightarrow> Collector" where
  "NewCollector dir = \<lparr>results = Map.empty, completed = 0, failed = 0, resultDir = dir\<rparr>"

definition StoreResult ::
  "Collector \<Rightarrow> CollectedResult option \<Rightarrow> (collector_error + unit) \<times> Collector" where
  "StoreResult c result =
     (case result of
        None \<Rightarrow> (Inl ResultNil, c)
      | Some r \<Rightarrow>
          if CollTestID r = [] then (Inl TestIDEmpty, c)
          else
            (let c1 = c\<lparr>results := (results c)(CollTestID r \<mapsto> r)\<rparr>
             in (Inr (),
                 if CollStatus r = ''completed'' then c1\<lparr>completed := completed c1 + 1\<rparr>
                 else if CollStatus r = ''failed'' then c1\<lparr>failed := failed c1 + 1\<rparr>
                 else c1)))"

definition StoreIperfResult ::
  "Collector \<Rightarrow> string \<Rightarrow> IperfResult option \<Rightarrow> (collector_error + unit) \<times> Collector" where
  "StoreIperfResult c testID result =
     (case result of
        None \<Rightarrow> (Inl ResultNil, c)
      | Some r \<Rightarrow>
          (let status = (if \<not> Success r then ''failed'' else ''completed'');
               testResult = \<lparr>CollTestID = testID, CollSourceID = [], CollDestinationID = [],
                             CollStatus = status, CollIperfJSON = JSONOutput r,
                             CollErrorMessage = Error r, CollStartTime = ResStartTime r,
                             CollEndTime = ResEndTime r, CollExitCode = ExitCode r\<rparr>
           in StoreResult c (Some testResult)))"

definition ClearResult :: "Collector \<Rightarrow> string \<Rightarrow> (collector_error + unit) \<times> Collector" where
  "ClearResult c testID =
     (case results c testID of
        None \<Rightarrow> (Inl (ResultNotFound testID), c)
      | Some r \<Rightarrow>
          (let c1 = c\<lparr>results := (results c)(testID := None)\<rparr>
           in (Inr (),
               if CollStatus r = ''completed'' then c1\<lparr>completed := completed c1 - 1\<rparr>
               else if CollStatus r = ''failed'' then c1\<lparr>failed := failed c1 - 1\<rparr>
               else c1)))"

fun ClearResults :: "Collector \<Rightarrow> string list \<Rightarrow> Collector" where
  "ClearResults c [] = c"
| "ClearResults c (testID # testIDs) =
     (case results c testID of
        None \<Rightarrow> ClearResults c testIDs
      | Some r \<Rightarrow>
          (let c1 = c\<lparr>results := (results c)(testID := None)\<rparr>
           in ClearResults
                (if CollStatus r = ''completed'' then c1\<lparr>completed := completed c1 - 1\<rparr>
                 else if CollStatus r = ''failed'' then c1\<lparr>failed := failed c1 - 1\<rparr>
                 else c1)
                testIDs))"

definition ClearAll :: "Collector \<Rightarrow> Collector" where
  "ClearAll c = c\<lparr>results := Map.empty, completed := 0, failed := 0\<rparr>"

definition GetCount :: "Collector \<Rightarrow> int" where
  "GetCount c = int (card (dom (results c)))"

definition GetCompletedCount :: "Collector \<Rightarrow> int" where
  "GetCompletedCount c = completed c"

definition GetFailedCount :: "Collector \<Rightarrow> int" where
  "GetFailedCount c = failed c"

text \<open>A successful iperf run, as the client worker hands it to the collector.\<close>

definition iperf_ok :: IperfResult where
  "iperf_ok = \<lparr>Success = True, JSONOutput = ''{}'', ExitCode = 0, Error = [],
               ResStartTime = 0, ResEndTime = 5\<rparr>"

section \<open>Controller result aggregator (package aggregator)\<close>









section \<open>Test profiles (package models)\<close>

text \<open>\<open>fmt.Sprintf("%d", n)\<close>: the decimal digits of \<open>n\<close>, with a leading minus sign
  for a negative number.\<close>

definition digit_char :: "nat \<Rightarrow> char" where
  "digit_char k = ''0123456789'' ! k"

fun show_nat :: "nat \<Rightarrow> string" where
  "show_nat n = (if n < 10 then [digit_char n] else show_nat (n div 10) @ [digit_char (n mod 10)])"

declare show_nat.simps [simp del]

definition show_int :: "int \<Rightarrow> string" where
  "show_int n = (if n < 0 then CHR ''-'' # show_nat (nat (- n)) else show_nat (nat n))"

definition ProtocolTCP :: string where
  "ProtocolTCP = ''tcp''"

definition ProtocolUDP :: string where
  "ProtocolUDP = ''udp''"

text \<open>\<open>ExtraFlags\<close> is a Go map; it is given as the list of its entries in iteration
  order, and the \<open>nil\<close> map is the empty list.\<close>

record TestProfile =
  Name :: string
  Duration :: int
  Protocol :: string
  Bandwidth :: string
  WindowSize :: string
  Parallel :: int
  Bidirectional :: bool
  Reverse :: bool
  BufferLength :: int
  CongestionControl :: string
  MSS :: int
  NoDelay :: bool
  TOS :: int
  ZeroCopy :: bool
  OmitSeconds :: int
  ExtraFlags :: "(string \<times> string) list"

text \<open>The loop over the extra flags at the end of \<open>ToCommandArgs\<close>.\<close>

fun extra_args :: "(string \<times> string) list \<Rightarrow> string list" where
  "extra_args [] = []"
| "extra_args ((flag, val) # rest) =
     (if val = [] then [flag] else [flag, val]) @ extra_args rest"

definition ToCommandArgs :: "TestProfile \<Rightarrow> string list" where
  "ToCommandArgs p =
     (if Protocol p = ProtocolUDP then [''-u''] else [])
     @ [''-t'', show_int (Duration p)]
     @ (if Bandwidth p \<noteq> [] \<and> Bandwidth p \<noteq> ''0'' then [''-b'', Bandwidth p] else [])
     @ (if WindowSize p \<noteq> [] then [''-w'', WindowSize p] else [])
     @ (if Parallel p > 1 then [''-P'', show_int (Parallel p)] else [])
     @ (if Bidirectional p then [''--bidir''] else [])
     @ (if Reverse p then [''-R''] else [])
     @ (if BufferLength p > 0 then [''-l'', show_int (BufferLength p)] else [])
     @ (if Protocol p \<noteq> ProtocolUDP \<and> CongestionControl p \<noteq> []
        then [''-C'', CongestionControl p] else [])
     @ (if Protocol p \<noteq> ProtocolUDP \<and> MSS p > 0 then [''-M'', show_int (MSS p)] else [])
     @ (if Protocol p \<noteq> ProtocolUDP \<and> NoDelay p then [''-N''] else [])
     @ (if TOS p > 0 then [''-S'', show_int (TOS p)] else [])
     @ (if ZeroCopy p then [''-Z''] else [])
     @ (if OmitSeconds p > 0 then [''-O'', show_int (OmitSeconds p)] else [])
     @ [''-J'']
     @ extra_args (ExtraFlags p)"

text \<open>The strings of a profile that \<open>ToCommandArgs\<close> copies into the argument vector
  as they are: bandwidth, window size, the congestion-control name (TCP only), and the
  extra flags with their values.\<close>

definition verbatim_args :: "TestProfile \<Rightarrow> string list" where
  "verbatim_args p =
     (if Bandwidth p \<noteq> [] \<and> Bandwidth p \<noteq> ''0'' then [Bandwidth p] else [])
     @ (if WindowSize p \<noteq> [] then [WindowSize p] else [])
     @ (if Protocol p \<noteq> ProtocolUDP \<and> CongestionControl p \<noteq> []
        then [CongestionControl p] else [])
     @ extra_args (ExtraFlags p)"

definition profile_default :: TestProfile where
  "profile_default =
     \<lparr>Name = ''default'', Duration = 5, Protocol = ''tcp'', Bandwidth = [], WindowSize = [],
      Parallel = 1, Bidirectional = False, Reverse = False, BufferLength = 0,
      CongestionControl = [], MSS = 0, NoDelay = False, TOS = 0, ZeroCopy = False,
      OmitSeconds = 0, ExtraFlags = []\<rparr>"

definition profile_udp :: TestProfile where
  "profile_udp =
     profile_default\<lparr>Name := ''udp'', Protocol := ''udp'', Bandwidth := ''100M'',
       CongestionControl := ''cubic'', MSS := 1400, NoDelay := True\<rparr>"

text \<open>The default profile with the extra flag \<open>-u\<close>.\<close>

definition profile_tcp_extra_u :: TestProfile where
  "profile_tcp_extra_u = profile_default\<lparr>ExtraFlags := [(''-u'', [])]\<rparr>"

section \<open>Protobuf messages (package pb)\<close>

text \<open>
  The generated protobuf package is not among the sources. The messages are modelled
  with the fields the code reads and writes; of the \<open>Protocol\<close> enumeration only the
  two constants the code names are modelled. \<open>int32\<close> fields are 32-bit words, an
  unset message pointer is \<open>None\<close>.
\<close>

datatype PbProtocol = PROTOCOL_TCP | PROTOCOL_UDP

record PbTestProfile =
  PbName :: string
  DurationSeconds :: "32 word"
  PbProtocolOf :: PbProtocol
  PbBandwidth :: string
  PbWindowSize :: string
  ParallelStreams :: "32 word"
  PbBidirectional :: bool
  PbReverse :: bool
  PbBufferLength :: "32 word"
  PbCongestionControl :: string
  Mss :: "32 word"
  PbNoDelay :: bool
  Tos :: "32 word"
  Zerocopy :: bool
  PbOmitSeconds :: "32 word"

text \<open>The zero value \<open>&pb.TestProfile{}\<close>.\<close>

definition PbTestProfile_zero :: PbTestProfile where
  "PbTestProfile_zero =
     \<lparr>PbName = [], DurationSeconds = 0, PbProtocolOf = PROTOCOL_TCP, PbBandwidth = [],
      PbWindowSize = [], ParallelStreams = 0, PbBidirectional = False, PbReverse = False,
      PbBufferLength = 0, PbCongestionControl = [], Mss = 0, PbNoDelay = False, Tos = 0,
      Zerocopy = False, PbOmitSeconds = 0\<rparr>"

record PbTestPair =
  SourceId :: string
  DestinationId :: string
  DestinationIp :: string
  DestinationPort :: "32 word"
  PbProfile :: PbTestProfile

record PbTestTopology =
  ServerAssignments :: "PbTestPair list"
  ClientAssignments :: "PbTestPair list"

record ClientTarget =
  TargetTestId :: string
  TargetDestinationIp :: string
  TargetDestinationPort :: "32 word"
  TargetProfile :: "PbTestProfile option"

section \<open>Daemon process manager (package process)\<close>

datatype Mode = ModeServer | ModeClient

text \<open>The configuration of one iperf3 run (package iperf), with the fields the daemon
  fills in.\<close>

record IperfConfig =
  CfgMode :: "Mode option"
  CfgPort :: int
  CfgHost :: string
  CfgProtocol :: string
  CfgDuration :: int
  CfgBandwidth :: string
  CfgWindowSize :: string
  CfgParallel :: int
  CfgBidirectional :: bool
  CfgReverse :: bool
  CfgBufferLength :: int
  CfgCongestionControl :: string
  CfgMSS :: int
  CfgNoDelay :: bool
  CfgTOS :: int
  CfgZeroCopy :: bool
  CfgOmitSeconds :: int

definition IperfConfig_zero :: IperfConfig where
  "IperfConfig_zero =
     \<lparr>CfgMode = None, CfgPort = 0, CfgHost = [], CfgProtocol = [], CfgDuration = 0,
      CfgBandwidth = [], CfgWindowSize = [], CfgParallel = 0, CfgBidirectional = False,
      CfgReverse = False, CfgBufferLength = 0, CfgCongestionControl = [], CfgMSS = 0,
      CfgNoDelay = False, CfgTOS = 0, CfgZeroCopy = False, CfgOmitSeconds = 0\<rparr>"

text \<open>A process record without its start time, command and cancel function.\<close>

record ProcessInfo =
  ProcTestID :: string
  PID :: int
  ProcPort :: int
  ProcMode :: Mode

record Manager =
  capacity :: CapacityCalculator
  processes :: "string \<rightharpoonup> ProcessInfo"
  servers :: "int \<rightharpoonup> ProcessInfo"

datatype manager_error =
    ServerAlreadyRunning int
  | NoCapacity capacity_error
  | FailedToStartServer
  | TestAlreadyRunning string

text \<open>
  Starting the iperf3 server process is the one step that depends on the machine.
  A \<open>world\<close> gives the outcome of the \<open>k\<close>-th call of \<open>RunServer\<close>: the process id, or
  \<open>None\<close> when the process cannot be started. The manager is threaded together with
  the number of calls made so far. The monitor and client goroutines that remove a
  record when its process ends run after the calls modelled here.
\<close>

type_synonym world = "nat \<Rightarrow> int option"

definition NewManager :: "CapacityCalculator \<Rightarrow> Manager" where
  "NewManager cap = \<lparr>capacity = cap, processes = Map.empty, servers = Map.empty\<rparr>"

definition StartServer ::
  "world \<Rightarrow> Manager \<times> nat \<Rightarrow> int \<Rightarrow> manager_error option \<times> (Manager \<times> nat)" where
  "StartServer w st port =
     (let m = fst st; k = snd st
      in if servers m port \<noteq> None then (Some (ServerAlreadyRunning port), (m, k))
         else
           (case ReserveSlots (capacity m) 1 of
              (Inl e, cap1) \<Rightarrow> (Some (NoCapacity e), (m, k))
            | (Inr u, cap1) \<Rightarrow>
                (case w k of
                   None \<Rightarrow>
                     (Some FailedToStartServer, (m\<lparr>capacity := ReleaseSlots cap1 1\<rparr>, k + 1))
                 | Some pid \<Rightarrow>
                     (let processInfo =
                            \<lparr>ProcTestID = ''server-'' @ show_int port, PID = pid,
                             ProcPort = port, ProcMode = ModeServer\<rparr>
                      in (None,
                          (m\<lparr>capacity := cap1,
                             servers := (servers m)(port \<mapsto> processInfo),
                             processes := (processes m)(ProcTestID processInfo \<mapsto> processInfo)\<rparr>,
                           k + 1))))))"

definition StartClient ::
  "Manager \<Rightarrow> string \<Rightarrow> string \<Rightarrow> int \<Rightarrow> IperfConfig \<Rightarrow> manager_error option \<times> Manager" where
  "StartClient m testID host port config =
     (if processes m testID \<noteq> None then (Some (TestAlreadyRunning testID), m)
      else
        (case ReserveSlots (capacity m) 1 of
           (Inl e, cap1) \<Rightarrow> (Some (NoCapacity e), m)
         | (Inr u, cap1) \<Rightarrow>
             (let processInfo =
                    \<lparr>ProcTestID = testID, PID = 0, ProcPort = port, ProcMode = ModeClient\<rparr>
              in (None,
                  m\<lparr>capacity := cap1,
                    processes := (processes m)(testID \<mapsto> processInfo)\<rparr>))))"

section \<open>Daemon RPC server (package server)\<close>

text \<open>An entry of \<open>errors[]\<close> is the formatted text \<open>"port %d: %v"\<close> (or
  \<open>"test %s: %v"\<close>); it is kept as the pair of the item and its error.\<close>

record StartServersResponse =
  SrvSuccess :: bool
  SrvMessage :: string
  StartedPorts :: "32 word list"
  SrvErrors :: "(32 word \<times> manager_error) list"

record StartClientsResponse =
  CliSuccess :: bool
  CliMessage :: string
  StartedTestIds :: "string list"
  CliErrors :: "(string \<times> manager_error) list"

definition convertProfileToIperfConfig :: "PbTestProfile option \<Rightarrow> IperfConfig" where
  "convertProfileToIperfConfig profile =
     (case profile of
        None \<Rightarrow> IperfConfig_zero
      | Some p \<Rightarrow>
          \<lparr>CfgMode = None, CfgPort = 0, CfgHost = [],
           CfgProtocol = (if PbProtocolOf p = PROTOCOL_UDP then ProtocolUDP else ProtocolTCP),
           CfgDuration = sint (DurationSeconds p), CfgBandwidth = PbBandwidth p,
           CfgWindowSize = PbWindowSize p, CfgParallel = sint (ParallelStreams p),
           CfgBidirectional = PbBidirectional p, CfgReverse = PbReverse p,
           CfgBufferLength = sint (PbBufferLength p),
           CfgCongestionControl = PbCongestionControl p, CfgMSS = sint (Mss p),
           CfgNoDelay = PbNoDelay p, CfgTOS = sint (Tos p), CfgZeroCopy = Zerocopy p,
           CfgOmitSeconds = sint (PbOmitSeconds p)\<rparr>)"

text \<open>The loop of \<open>StartServers\<close> over \<open>req.Ports\<close>, on the started ports and the
  errors collected so far.\<close>

fun start_servers_loop ::
  "world \<Rightarrow> Manager \<times> nat \<Rightarrow> 32 word list \<Rightarrow> 32 word list \<Rightarrow> (32 word \<times> manager_error) list
   \<Rightarrow> (32 word list \<times> (32 word \<times> manager_error) list) \<times> (Manager \<times> nat)" where
  "start_servers_loop w st [] startedPorts errors = ((startedPorts, errors), st)"
| "start_servers_loop w st (port # ports) startedPorts errors =
     (case StartServer w st (sint port) of
        (Some err, st') \<Rightarrow> start_servers_loop w st' ports startedPorts (errors @ [(port, err)])
      | (None, st') \<Rightarrow> start_servers_loop w st' ports (startedPorts @ [port]) errors)"

definition StartServers ::
  "world \<Rightarrow> Manager \<times> nat \<Rightarrow> 32 word list \<Rightarrow> StartServersResponse \<times> (Manager \<times> nat)" where
  "StartServers w st ports =
     (if length ports = 0
      then (\<lparr>SrvSuccess = False, SrvMessage = ''no ports specified'', StartedPorts = [],
              SrvErrors = []\<rparr>, st)
      else
        (case start_servers_loop w st ports [] [] of
           ((startedPorts, errors), st') \<Rightarrow>
             (\<lparr>SrvSuccess = (length startedPorts > 0),
               SrvMessage = ''started '' @ show_int (int (length startedPorts)) @ ''/''
                            @ show_int (int (length ports)) @ '' servers'',
               StartedPorts = startedPorts, SrvErrors = errors\<rparr>, st')))"

fun start_clients_loop ::
  "Manager \<Rightarrow> ClientTarget list \<Rightarrow> string list \<Rightarrow> (string \<times> manager_error) list
   \<Rightarrow> (string list \<times> (string \<times> manager_error) list) \<times> Manager" where
  "start_clients_loop m [] startedTestIDs errors = ((startedTestIDs, errors), m)"
| "start_clients_loop m (target # targets) startedTestIDs errors =
     (let config = convertProfileToIperfConfig (TargetProfile target)
      in case StartClient m (TargetTestId target) (TargetDestinationIp target)
                (sint (TargetDestinationPort target)) config of
           (Some err, m') \<Rightarrow>
             start_clients_loop m' targets startedTestIDs (errors @ [(TargetTestId target, err)])
         | (None, m') \<Rightarrow>
             start_clients_loop m' targets (startedTestIDs @ [TargetTestId target]) errors)"

definition StartClients :: "Manager \<Rightarrow> ClientTarget list \<Rightarrow> StartClientsResponse \<times> Manager" where
  "StartClients m targets =
     (if length targets = 0
      then (\<lparr>CliSuccess = False, CliMessage = ''no targets specified'', StartedTestIds = [],
              CliErrors = []\<rparr>, m)
      else
        (case start_clients_loop m targets [] [] of
           ((startedTestIDs, errors), m') \<Rightarrow>
             (\<lparr>CliSuccess = (length startedTestIDs > 0),
               CliMessage = ''started '' @ show_int (int (length startedTestIDs)) @ ''/''
                            @ show_int (int (length targets)) @ '' clients'',
               StartedTestIds = startedTestIDs, CliErrors = errors\<rparr>, m')))"

text \<open>What each item of a request met: the results of the successive \<open>StartServer\<close>
  (or \<open>StartClient\<close>) calls, \<open>None\<close> for an item that started.\<close>

fun server_outcomes :: "world \<Rightarrow> Manager \<times> nat \<Rightarrow> 32 word list \<Rightarrow> manager_error option list" where
  "server_outcomes w st [] = []"
| "server_outcomes w st (port # ports) =
     fst (StartServer w st (sint port))
     # server_outcomes w (snd (StartServer w st (sint port))) ports"

fun client_outcomes :: "Manager \<Rightarrow> ClientTarget list \<Rightarrow> manager_error option list" where
  "client_outcomes m [] = []"
| "client_outcomes m (target # targets) =
     fst (StartClient m (TargetTestId target) (TargetDestinationIp target)
            (sint (TargetDestinationPort target))
            (convertProfileToIperfConfig (TargetProfile target)))
     # client_outcomes
         (snd (StartClient m (TargetTestId target) (TargetDestinationIp target)
                 (sint (TargetDestinationPort target))
                 (convertProfileToIperfConfig (TargetProfile target))))
         targets"

text \<open>The items that started, and the failed items with their errors, in request
  order.\<close>

fun started_items :: "'a list \<Rightarrow> manager_error option list \<Rightarrow> 'a list" where
  "started_items (x # xs) (None # os) = x # started_items xs os"
| "started_items (x # xs) (Some e # os) = started_items xs os"
| "started_items _ _ = []"

fun failed_items :: "'a list \<Rightarrow> manager_error option list \<Rightarrow> ('a \<times> manager_error) list" where
  "failed_items (x # xs) (None # os) = failed_items xs os"
| "failed_items (x # xs) (Some e # os) = (x, e) # failed_items xs os"
| "failed_items _ _ = []"

text \<open>A machine on which every server process starts, with process id 100.\<close>

definition world_pid_100 :: world where
  "world_pid_100 = (\<lambda>k. Some 100)"

section \<open>Node and profile registries (package models)\<close>

text \<open>A node without its capacity snapshot. Nodes and profiles are never changed after
  they are registered, so the pointers of the Go code are modelled as the values
  themselves; a pointer that may be \<open>nil\<close> is an \<open>option\<close>.\<close>

record Node =
  ID :: string
  Hostname :: string
  IP :: string
  Port :: int
  Tags :: "string list"

record NodeRegistry =
  nodes :: "string \<rightharpoonup> Node"
  nodeList :: "Node list"

datatype registry_error =
    NodeIDEmpty
  | NodeExists string
  | NodeNotFound string
  | ProfileNameEmpty
  | ProfileExists string
  | ProfileNotFound string

definition NewNodeRegistry :: NodeRegistry where
  "NewNodeRegistry = \<lparr>nodes = Map.empty, nodeList = []\<rparr>"

definition AddNode :: "NodeRegistry \<Rightarrow> Node \<Rightarrow> (registry_error + unit) \<times> NodeRegistry" where
  "AddNode r node =
     (if ID node = [] then (Inl NodeIDEmpty, r)
      else if nodes r (ID node) \<noteq> None then (Inl (NodeExists (ID node)), r)
      else (Inr (), r\<lparr>nodes := (nodes r)(ID node \<mapsto> node), nodeList := nodeList r @ [node]\<rparr>))"

definition GetAllNodes :: "NodeRegistry \<Rightarrow> Node list" where
  "GetAllNodes r = nodeList r"

text \<open>A registry is only ever built by \<open>AddNode\<close> calls on a new registry.\<close>

definition add_nodes :: "NodeRegistry \<Rightarrow> Node list \<Rightarrow> NodeRegistry" where
  "add_nodes r ns = foldl (\<lambda>r n. snd (AddNode r n)) r ns"

record ProfileRegistry =
  profiles :: "string \<rightharpoonup> TestProfile"

definition NewProfileRegistry :: ProfileRegistry where
  "NewProfileRegistry = \<lparr>profiles = Map.empty\<rparr>"

definition AddProfile ::
  "ProfileRegistry \<Rightarrow> TestProfile \<Rightarrow> (registry_error + unit) \<times> ProfileRegistry" where
  "AddProfile r profile =
     (if Name profile = [] then (Inl ProfileNameEmpty, r)
      else if profiles r (Name profile) \<noteq> None then (Inl (ProfileExists (Name profile)), r)
      else (Inr (), r\<lparr>profiles := (profiles r)(Name profile \<mapsto> profile)\<rparr>))"

definition GetProfile :: "ProfileRegistry \<Rightarrow> string \<Rightarrow> registry_error + TestProfile" where
  "GetProfile r name =
     (case profiles r name of None \<Rightarrow> Inl (ProfileNotFound name) | Some profile \<Rightarrow> Inr profile)"

section \<open>Topology planner (package topology)\<close>

text \<open>
  The two maps of a topology are iterated over by \<open>GenerateNodeTopologies\<close>, so they
  are association lists with distinct keys: \<open>map_of\<close> looks a key up,
  \<open>AList.update\<close> stores a value, and the order of the entries stands for the order in
  which Go happens to iterate. Indexing a map of slices with a missing key gives the
  \<open>nil\<close> slice, the empty list.
\<close>

record TestPair =
  TestID :: string
  Source :: Node
  Destination :: Node
  Profile :: "TestProfile option"

record Topology =
  Pairs :: "TestPair list"
  ServerPorts :: "(string \<times> 32 word list) list"
  ClientTests :: "(string \<times> TestPair list) list"

record Generator =
  gen_nodes :: NodeRegistry
  gen_profiles :: ProfileRegistry
  defaultProfile :: "TestProfile option"
  overrides :: "string \<rightharpoonup> string"

datatype topology_error =
    AtLeastTwoNodes
  | NoPortForSource string string
  | NoServerPort string
  | NoPortIndex string string
  | PanicNilTopology string

definition lookup_slice :: "('k \<times> 'v list) list \<Rightarrow> 'k \<Rightarrow> 'v list" where
  "lookup_slice m k = (case map_of m k of None \<Rightarrow> [] | Some xs \<Rightarrow> xs)"

definition NewGenerator ::
  "NodeRegistry \<Rightarrow> ProfileRegistry \<Rightarrow> TestProfile option \<Rightarrow> Generator" where
  "NewGenerator ns ps dp =
     \<lparr>gen_nodes = ns, gen_profiles = ps, defaultProfile = dp, overrides = Map.empty\<rparr>"

definition AddOverride :: "Generator \<Rightarrow> string \<Rightarrow> string \<Rightarrow> string \<Rightarrow> Generator" where
  "AddOverride g sourceID destID profileName =
     g\<lparr>overrides := (overrides g)(sourceID @ '':'' @ destID \<mapsto> profileName)\<rparr>"

definition getProfileForPair :: "Generator \<Rightarrow> string \<Rightarrow> string \<Rightarrow> TestProfile option" where
  "getProfileForPair g sourceID destID =
     (case overrides g (sourceID @ '':'' @ destID) of
        Some profileName \<Rightarrow>
          (case GetProfile (gen_profiles g) profileName of
             Inr profile \<Rightarrow> Some profile
           | Inl err \<Rightarrow> defaultProfile g)
      | None \<Rightarrow> defaultProfile g)"

text \<open>The inner and the outer loop of \<open>GenerateFullMesh\<close>, on the topology built so
  far and \<open>testCounter\<close>.\<close>

fun mesh_inner :: "Generator \<Rightarrow> Node \<Rightarrow> Node list \<Rightarrow> Topology \<times> int \<Rightarrow> Topology \<times> int" where
  "mesh_inner g source [] st = st"
| "mesh_inner g source (dest # dests) st =
     (if ID source = ID dest then mesh_inner g source dests st
      else
        (let topology = fst st;
             profile = getProfileForPair g (ID source) (ID dest);
             testCounter = snd st + 1;
             testID = ''test-'' @ show_int testCounter @ ''-'' @ ID source @ ''-to-'' @ ID dest;
             pair = \<lparr>TestID = testID, Source = source, Destination = dest, Profile = profile\<rparr>
         in mesh_inner g source dests
              (topology\<lparr>Pairs := Pairs topology @ [pair],
                 ClientTests :=
                   AList.update (ID source)
                     (lookup_slice (ClientTests topology) (ID source) @ [pair])
                     (ClientTests topology)\<rparr>,
               testCounter)))"

fun mesh_outer :: "Generator \<Rightarrow> Node list \<Rightarrow> Node list \<Rightarrow> Topology \<times> int \<Rightarrow> Topology \<times> int" where
  "mesh_outer g [] all_nodes st = st"
| "mesh_outer g (source # sources) all_nodes st =
     mesh_outer g sources all_nodes (mesh_inner g source all_nodes st)"

text \<open>The port loops: \<open>numPorts\<close> consecutive values of the \<open>int32\<close> counter for each
  node.\<close>

fun fill_ports :: "nat \<Rightarrow> 32 word \<Rightarrow> 32 word list \<times> 32 word" where
  "fill_ports 0 portCounter = ([], portCounter)"
| "fill_ports (Suc n) portCounter =
     (case fill_ports n (portCounter + 1) of
        (ports, portCounter') \<Rightarrow> (portCounter # ports, portCounter'))"

fun assign_ports ::
  "Node list \<Rightarrow> nat \<Rightarrow> (string \<times> 32 word list) list \<times> 32 word
   \<Rightarrow> (string \<times> 32 word list) list \<times> 32 word" where
  "assign_ports [] numPorts st = st"
| "assign_ports (node # rest) numPorts st =
     (case fill_ports numPorts (snd st) of
        (ports, portCounter') \<Rightarrow>
          assign_ports rest numPorts (AList.update (ID node) ports (fst st), portCounter'))"

definition GenerateFullMesh :: "Generator \<Rightarrow> topology_error + Topology" where
  "GenerateFullMesh g =
     (let ns = GetAllNodes (gen_nodes g)
      in if length ns < 2 then Inl AtLeastTwoNodes
         else
           (let topology = fst (mesh_outer g ns ns
                                  (\<lparr>Pairs = [], ServerPorts = [], ClientTests = []\<rparr>, 0));
                ports = fst (assign_ports ns (length ns - 1) (ServerPorts topology, 5201))
            in Inr (topology\<lparr>ServerPorts := ports\<rparr>)))"

definition ConvertProfileToProto :: "TestProfile option \<Rightarrow> PbTestProfile" where
  "ConvertProfileToProto profile =
     (case profile of
        None \<Rightarrow> PbTestProfile_zero
      | Some p \<Rightarrow>
          \<lparr>PbName = Name p, DurationSeconds = word_of_int (Duration p),
           PbProtocolOf = (if Protocol p = ProtocolUDP then PROTOCOL_UDP else PROTOCOL_TCP),
           PbBandwidth = Bandwidth p, PbWindowSize = WindowSize p,
           ParallelStreams = word_of_int (Parallel p), PbBidirectional = Bidirectional p,
           PbReverse = Reverse p, PbBufferLength = word_of_int (BufferLength p),
           PbCongestionControl = CongestionControl p, Mss = word_of_int (MSS p),
           PbNoDelay = NoDelay p, Tos = word_of_int (TOS p), Zerocopy = ZeroCopy p,
           PbOmitSeconds = word_of_int (OmitSeconds p)\<rparr>)"

text \<open>\<open>GenerateNodeTopologies\<close>. The ids of the nodes that occur in a pair:\<close>

definition pair_node_ids :: "TestPair list \<Rightarrow> string set" where
  "pair_node_ids ps = set (concat (map (\<lambda>pair. [ID (Source pair), ID (Destination pair)]) ps))"

text \<open>The list \<open>sourceNodes\<close>: the sources of the pairs whose destination is \<open>nodeID\<close>.\<close>

definition source_nodes :: "TestPair list \<Rightarrow> string \<Rightarrow> string list" where
  "source_nodes ps nodeID =
     map (\<lambda>pair. ID (Source pair)) (filter (\<lambda>pair. ID (Destination pair) = nodeID) ps)"

text \<open>The loop that fills \<open>sourceToPort\<close>, from index \<open>i\<close>.\<close>

fun source_to_port ::
  "string list \<Rightarrow> nat \<Rightarrow> 32 word list \<Rightarrow> (string \<rightharpoonup> 32 word) \<Rightarrow> (string \<rightharpoonup> 32 word)" where
  "source_to_port [] i ports m = m"
| "source_to_port (sourceID # rest) i ports m =
     source_to_port rest (i + 1) ports
       (if i < length ports then m(sourceID \<mapsto> ports ! i) else m)"

definition pb_pair :: "TestPair \<Rightarrow> 32 word \<Rightarrow> PbTestPair" where
  "pb_pair pair port =
     \<lparr>SourceId = ID (Source pair), DestinationId = ID (Destination pair),
      DestinationIp = IP (Destination pair), DestinationPort = port,
      PbProfile = ConvertProfileToProto (Profile pair)\<rparr>"

text \<open>The loop over the pairs that appends the server assignments of \<open>nodeID\<close>.
  \<open>result[nodeID]\<close> is a pointer; using it when the key is missing is a nil
  dereference.\<close>

fun server_assign ::
  "string \<Rightarrow> (string \<rightharpoonup> 32 word) \<Rightarrow> TestPair list \<Rightarrow> (string \<rightharpoonup> PbTestTopology)
   \<Rightarrow> topology_error + (string \<rightharpoonup> PbTestTopology)" where
  "server_assign nodeID sourceToPort [] result = Inr result"
| "server_assign nodeID sourceToPort (pair # rest) result =
     (if ID (Destination pair) = nodeID then
        (case sourceToPort (ID (Source pair)) of
           None \<Rightarrow> Inl (NoPortForSource (ID (Source pair)) nodeID)
         | Some port \<Rightarrow>
             (case result nodeID of
                None \<Rightarrow> Inl (PanicNilTopology nodeID)
              | Some t \<Rightarrow>
                  server_assign nodeID sourceToPort rest
                    (result(nodeID \<mapsto>
                       t\<lparr>ServerAssignments := ServerAssignments t @ [pb_pair pair port]\<rparr>))))
      else server_assign nodeID sourceToPort rest result)"

fun server_loop ::
  "TestPair list \<Rightarrow> (string \<times> 32 word list) list \<Rightarrow> (string \<rightharpoonup> PbTestTopology)
   \<Rightarrow> topology_error + (string \<rightharpoonup> PbTestTopology)" where
  "server_loop ps [] result = Inr result"
| "server_loop ps ((nodeID, ports) # rest) result =
     (if length ports = 0 then server_loop ps rest result
      else
        (case server_assign nodeID
                (source_to_port (source_nodes ps nodeID) 0 ports Map.empty) ps result of
           Inl err \<Rightarrow> Inl err
         | Inr result' \<Rightarrow> server_loop ps rest result'))"

text \<open>The search for \<open>portIndex\<close>: the first position of the source, or \<open>-1\<close>.\<close>

fun find_index :: "string list \<Rightarrow> string \<Rightarrow> int \<Rightarrow> int" where
  "find_index [] sourceID i = - 1"
| "find_index (x # xs) sourceID i = (if x = sourceID then i else find_index xs sourceID (i + 1))"

fun client_assign ::
  "Topology \<Rightarrow> string \<Rightarrow> TestPair list \<Rightarrow> (string \<rightharpoonup> PbTestTopology)
   \<Rightarrow> topology_error + (string \<rightharpoonup> PbTestTopology)" where
  "client_assign topology nodeID [] result = Inr result"
| "client_assign topology nodeID (pair # rest) result =
     (let destPorts = lookup_slice (ServerPorts topology) (ID (Destination pair))
      in if length destPorts = 0 then Inl (NoServerPort (ID (Destination pair)))
         else
           (let sourceNodes = source_nodes (Pairs topology) (ID (Destination pair));
                portIndex = find_index sourceNodes (ID (Source pair)) 0
            in if portIndex < 0 \<or> portIndex \<ge> int (length destPorts)
               then Inl (NoPortIndex (ID (Source pair)) (ID (Destination pair)))
               else
                 (case result nodeID of
                    None \<Rightarrow> Inl (PanicNilTopology nodeID)
                  | Some t \<Rightarrow>
                      client_assign topology nodeID rest
                        (result(nodeID \<mapsto>
                           t\<lparr>ClientAssignments :=
                                ClientAssignments t
                                @ [pb_pair pair (destPorts ! nat portIndex)]\<rparr>)))))"

fun client_loop ::
  "Topology \<Rightarrow> (string \<times> TestPair list) list \<Rightarrow> (string \<rightharpoonup> PbTestTopology)
   \<Rightarrow> topology_error + (string \<rightharpoonup> PbTestTopology)" where
  "client_loop topology [] result = Inr result"
| "client_loop topology ((nodeID, ps) # rest) result =
     (case client_assign topology nodeID ps result of
        Inl err \<Rightarrow> Inl err
      | Inr result' \<Rightarrow> client_loop topology rest result')"

text \<open>
  Go visits the entries of a map in an unspecified order.
  \<open>GenerateNodeTopologies_in_order\<close> is the function with the two orders made explicit:
  the lists of entries of \<open>ServerPorts\<close> and of \<open>ClientTests\<close> in the order the two
  \<open>range\<close> loops visit them. \<open>GenerateNodeTopologies\<close> is the run that visits them in
  the order of the association lists.
\<close>

definition GenerateNodeTopologies_in_order ::
  "Topology \<Rightarrow> (string \<times> 32 word list) list \<Rightarrow> (string \<times> TestPair list) list
   \<Rightarrow> topology_error + (string \<rightharpoonup> PbTestTopology)" where
  "GenerateNodeTopologies_in_order topology serverEntries clientEntries =
     (let result0 = (\<lambda>nodeID. if nodeID \<in> pair_node_ids (Pairs topology)
                               then Some \<lparr>ServerAssignments = [], ClientAssignments = []\<rparr>
                               else None)
      in case server_loop (Pairs topology) serverEntries result0 of
           Inl err \<Rightarrow> Inl err
         | Inr result1 \<Rightarrow> client_loop topology clientEntries result1)"

definition GenerateNodeTopologies ::
  "Topology \<Rightarrow> topology_error + (string \<rightharpoonup> PbTestTopology)" where
  "GenerateNodeTopologies topology =
     GenerateNodeTopologies_in_order topology (ServerPorts topology) (ClientTests topology)"

text \<open>\<open>entries\<close> lists every entry of the map \<open>m\<close> once.\<close>

definition iteration_order :: "('k \<times> 'v) list \<Rightarrow> ('k \<times> 'v) list \<Rightarrow> bool" where
  "iteration_order m entries \<longleftrightarrow> set entries = set m \<and> distinct (map fst entries)"

definition GetTestCount :: "Topology \<Rightarrow> int" where
  "GetTestCount t = int (length (Pairs t))"

section \<open>Test matrix (package models)\<close>

text \<open>
  The keys of \<open>NodePairs\<close> are pairs of node pointers; with one pointer per registered
  node they are pairs of nodes. Reading \<open>profile.Bidirectional\<close> through a \<open>nil\<close>
  profile is a panic.
\<close>

record TestMatrix =
  DefaultProfile :: "TestProfile option"
  NodePairs :: "(Node \<times> Node) \<rightharpoonup> TestProfile option"
  MatrixNodes :: NodeRegistry

record TestAssignment =
  AssignID :: string
  AssignSource :: Node
  AssignDestination :: Node
  AssignProfile :: "TestProfile option"

datatype matrix_error = PanicNilProfile

definition NewTestMatrix :: "TestProfile option \<Rightarrow> NodeRegistry \<Rightarrow> TestMatrix" where
  "NewTestMatrix dp ns = \<lparr>DefaultProfile = dp, NodePairs = Map.empty, MatrixNodes = ns\<rparr>"

definition GetPairProfile :: "TestMatrix \<Rightarrow> Node \<Rightarrow> Node \<Rightarrow> TestProfile option" where
  "GetPairProfile m source destination =
     (case NodePairs m (source, destination) of
        Some profile \<Rightarrow> profile
      | None \<Rightarrow> DefaultProfile m)"

text \<open>The inner and the outer loop of \<open>TestMatrix.GenerateFullMesh\<close>, on the
  assignments made so far and the counter \<open>testID\<close>.\<close>

fun matrix_inner ::
  "TestMatrix \<Rightarrow> Node \<Rightarrow> Node list \<Rightarrow> TestAssignment list \<times> int
   \<Rightarrow> matrix_error + TestAssignment list \<times> int" where
  "matrix_inner m source [] st = Inr st"
| "matrix_inner m source (dest # dests) st =
     (if ID source = ID dest then matrix_inner m source dests st
      else
        (let profile = GetPairProfile m source dest;
             testID = snd st + 1;
             assignment = \<lparr>AssignID = ''test-'' @ show_int testID, AssignSource = source,
                           AssignDestination = dest, AssignProfile = profile\<rparr>;
             assignments = fst st @ [assignment]
         in case profile of
              None \<Rightarrow> Inl PanicNilProfile
            | Some p \<Rightarrow>
                if Bidirectional p then
                  (let testID2 = testID + 1;
                       reverseAssignment =
                         \<lparr>AssignID = ''test-'' @ show_int testID2, AssignSource = dest,
                          AssignDestination = source, AssignProfile = profile\<rparr>
                   in matrix_inner m source dests (assignments @ [reverseAssignment], testID2))
                else matrix_inner m source dests (assignments, testID)))"

fun matrix_outer ::
  "TestMatrix \<Rightarrow> Node list \<Rightarrow> Node list \<Rightarrow> TestAssignment list \<times> int
   \<Rightarrow> matrix_error + TestAssignment list \<times> int" where
  "matrix_outer m [] all_nodes st = Inr st"
| "matrix_outer m (source # sources) all_nodes st =
     (case matrix_inner m source all_nodes st of
        Inl err \<Rightarrow> Inl err
      | Inr st' \<Rightarrow> matrix_outer m sources all_nodes st')"

definition TestMatrix_GenerateFullMesh :: "TestMatrix \<Rightarrow> matrix_error + TestAssignment list" where
  "TestMatrix_GenerateFullMesh m =
     (let ns = GetAllNodes (MatrixNodes m)
      in case matrix_outer m ns ns ([], 0) of
           Inl err \<Rightarrow> Inl err
         | Inr st \<Rightarrow> Inr (fst st))"

text \<open>The source and destination ids of a pair and of an assignment.\<close>

definition pair_ends :: "TestPair \<Rightarrow> string \<times> string" where
  "pair_ends pair = (ID (Source pair), ID (Destination pair))"

definition assignment_ends :: "TestAssignment \<Rightarrow> string \<times> string" where
  "assignment_ends a = (ID (AssignSource a), ID (AssignDestination a))"

text \<open>All ordered pairs of distinct ids, in the order of the two nested loops.\<close>

definition ordered_pairs :: "Node list \<Rightarrow> (string \<times> string) list" where
  "ordered_pairs ns =
     concat (map (\<lambda>s. map (\<lambda>d. (ID s, ID d)) (filter (\<lambda>d. ID s \<noteq> ID d) ns)) ns)"

text \<open>Two nodes, and a default profile with \<open>bidirectional = true\<close>.\<close>

definition node_a :: Node where
  "node_a = \<lparr>ID = ''a'', Hostname = ''a'', IP = ''10.0.0.1'', Port = 50051, Tags = []\<rparr>"

definition node_b :: Node where
  "node_b = \<lparr>ID = ''b'', Hostname = ''b'', IP = ''10.0.0.2'', Port = 50051, Tags = []\<rparr>"

definition node_c :: Node where
  "node_c = \<lparr>ID = ''c'', Hostname = ''c'', IP = ''10.0.0.3'', Port = 50051, Tags = []\<rparr>"

definition profile_bidir :: TestProfile where
  "profile_bidir = profile_default\<lparr>Name := ''bidir'', Bidirectional := True\<rparr>"

definition matrix_ab_bidir :: TestMatrix where
  "matrix_ab_bidir =
     NewTestMatrix (Some profile_bidir) (add_nodes NewNodeRegistry [node_a, node_b])"

definition gen_ab_bidir :: Generator where
  "gen_ab_bidir =
     NewGenerator (add_nodes NewNodeRegistry [node_a, node_b]) NewProfileRegistry
       (Some profile_bidir)"

section \<open>Auxiliary notions for the topology properties\<close>

text \<open>Auxiliary notions for the properties of \<open>GenerateNodeTopologies\<close>: the server
  assignments the loops append for a node, the port a client assignment gets, and the
  checks a client pair has to pass.\<close>

definition server_built :: "TestPair list \<Rightarrow> string \<Rightarrow> 32 word list \<Rightarrow> PbTestPair list" where
  "server_built ps k ports =
     map (\<lambda>p. pb_pair p (the (source_to_port (source_nodes ps k) 0 ports Map.empty (ID (Source p)))))
       (filter (\<lambda>p. ID (Destination p) = k) ps)"

definition client_port :: "Topology \<Rightarrow> TestPair \<Rightarrow> 32 word" where
  "client_port topo p =
     lookup_slice (ServerPorts topo) (ID (Destination p))
       ! nat (find_index (source_nodes (Pairs topo) (ID (Destination p))) (ID (Source p)) 0)"

definition client_ok :: "Topology \<Rightarrow> TestPair \<Rightarrow> bool" where
  "client_ok topo p \<longleftrightarrow>
     lookup_slice (ServerPorts topo) (ID (Destination p)) \<noteq> []
     \<and> 0 \<le> find_index (source_nodes (Pairs topo) (ID (Destination p))) (ID (Source p)) 0
     \<and> find_index (source_nodes (Pairs topo) (ID (Destination p))) (ID (Source p)) 0
         < int (length (lookup_slice (ServerPorts topo) (ID (Destination p))))"

text \<open>The client tests of a node are the pairs with that source, in order.\<close>

definition ct_inv :: "Topology \<Rightarrow> bool" where
  "ct_inv t \<longleftrightarrow>
     distinct (map fst (ClientTests t))
     \<and> (\<forall>k. map pair_ends (lookup_slice (ClientTests t) k) =
              filter (\<lambda>e. fst e = k) (map pair_ends (Pairs t)))"

text \<open>The assignments of a node in the result map; none for a missing node.\<close>

definition server_assignments :: "(string \<rightharpoonup> PbTestTopology) \<Rightarrow> string \<Rightarrow> PbTestPair list" where
  "server_assignments res k = (case res k of None \<Rightarrow> [] | Some t \<Rightarrow> ServerAssignments t)"

definition client_assignments :: "(string \<rightharpoonup> PbTestTopology) \<Rightarrow> string \<Rightarrow> PbTestPair list" where
  "client_assignments res k = (case res k of None \<Rightarrow> [] | Some t \<Rightarrow> ClientAssignments t)"

text \<open>Scenario E1: three nodes and the default profile.\<close>

definition gen_abc :: Generator where
  "gen_abc =
     NewGenerator (add_nodes NewNodeRegistry [node_a, node_b, node_c]) NewProfileRegistry
       (Some profile_default)"

section \<open>Topology planner, single-port variant\<close>

text \<open>
  The repository holds a second variant of the planner's source file, whose
  \<open>GenerateFullMesh\<close> enumerates the pairs in the same way and then gives every node a
  single server port: \<^verbatim>\<open>topology.ServerPorts[node.ID] = []int32{portCounter}; portCounter++\<close>.
\<close>

fun assign_single_port ::
  "Node list \<Rightarrow> (string \<times> 32 word list) list \<times> 32 word
   \<Rightarrow> (string \<times> 32 word list) list \<times> 32 word" where
  "assign_single_port [] st = st"
| "assign_single_port (node # rest) st =
     assign_single_port rest (AList.update (ID node) [snd st] (fst st), snd st + 1)"

definition GenerateFullMesh_single_port :: "Generator \<Rightarrow> topology_error + Topology" where
  "GenerateFullMesh_single_port g =
     (let ns = GetAllNodes (gen_nodes g)
      in if length ns < 2 then Inl AtLeastTwoNodes
         else
           (let topology = fst (mesh_outer g ns ns
                                  (\<lparr>Pairs = [], ServerPorts = [], ClientTests = []\<rparr>, 0));
                ports = fst (assign_single_port ns (ServerPorts topology, 5201))
            in Inr (topology\<lparr>ServerPorts := ports\<rparr>)))"

section \<open>Properties of the port allocator\<close>

lemma first_free_Some:
  "first_free m port e = Some p \<Longrightarrow> \<not> lookup_bool m p \<and> port \<le> p \<and> p \<le> e"
proof (induction m port e rule: first_free.induct)
  case (1 m port e)
  show ?case
  proof (cases "port \<le> e \<and> lookup_bool m port")
    case True
    with "1.prems" have "first_free m (port + 1) e = Some p"
      by (simp add: first_free.simps [of m port e])
    with True "1.IH" show ?thesis by fastforce
  next
    case False
    with "1.prems" show ?thesis
      by (auto simp: first_free.simps [of m port e] split: if_splits)
  qed
qed


lemma lookup_bool_mark_allocated:
  "lookup_bool (mark_allocated m ports) p \<longleftrightarrow> p \<in> set ports \<or> lookup_bool m p"
  by (induction ports arbitrary: m) (auto simp: lookup_bool_def)

lemma dom_mark_allocated: "dom (mark_allocated m ports) = dom m \<union> set ports"
  by (induction ports arbitrary: m) auto



lemma first_free_5201: "first_free Map.empty 5201 5205 = Some 5201"
  by (simp add: first_free.simps lookup_bool_def)










subsection \<open>Index consistency over sequences of calls\<close>

lemma count_equation: "GetAllocatedCount a + GetAvailableCount a = GetCapacity a"
  by (simp add: GetAllocatedCount_def GetAvailableCount_def GetCapacity_def Let_def)

lemma tm_AllocatePort: "tests_mapped a \<Longrightarrow> tests_mapped (snd (AllocatePort a t))"
proof (cases "testIDToPort a t")
  case (Some q)
  assume "tests_mapped a"
  with Some show ?thesis by (simp add: AllocatePort_def)
next
  case None
  assume inv: "tests_mapped a"
  show ?thesis
  proof (cases "first_free (allocatedPorts a) (startPort a) (endPort a)")
    case N: None
    with inv None show ?thesis by (simp add: AllocatePort_def)
  next
    case (Some q)
    then have free: "\<not> lookup_bool (allocatedPorts a) q"
      by (simp add: first_free_Some)
    have nq: "testIDToPort a t' \<noteq> Some q" for t'
      using inv free by (auto simp: tests_mapped_def IsPortAllocated_def)
    show ?thesis
      using inv None Some nq
      by (auto simp: AllocatePort_def tests_mapped_def IsPortAllocated_def lookup_bool_def)
  qed
qed

lemma tm_AllocatePorts: "tests_mapped a \<Longrightarrow> tests_mapped (snd (AllocatePorts a c))"
  by (auto simp: AllocatePorts_def Let_def tests_mapped_def IsPortAllocated_def
        lookup_bool_mark_allocated)

lemma tm_ReleasePort: "tests_mapped a \<Longrightarrow> tests_mapped (snd (ReleasePort a t))"
proof (cases "testIDToPort a t")
  case None
  assume "tests_mapped a"
  with None show ?thesis by (simp add: ReleasePort_def)
next
  case (Some q)
  assume inv: "tests_mapped a"
  have uniq: "t' = t" if "testIDToPort a t' = Some q" for t'
  proof -
    from inv that have "portToTestID a q = Some t'" by (simp add: tests_mapped_def)
    moreover from inv Some have "portToTestID a q = Some t" by (simp add: tests_mapped_def)
    ultimately show ?thesis by simp
  qed
  show ?thesis
    unfolding tests_mapped_def
  proof (intro allI impI)
    fix t' p
    assume h: "testIDToPort (snd (ReleasePort a t)) t' = Some p"
    with Some have t': "t' \<noteq> t" and old: "testIDToPort a t' = Some p"
      by (auto simp: ReleasePort_def split: if_splits)
    from old uniq t' have "p \<noteq> q" by auto
    with inv old Some show "portToTestID (snd (ReleasePort a t)) p = Some t' \<and>
        IsPortAllocated (snd (ReleasePort a t)) p"
      by (simp add: ReleasePort_def tests_mapped_def IsPortAllocated_def lookup_bool_def)
  qed
qed

lemma tm_ReleasePortByNumber:
  "tests_mapped a \<Longrightarrow> tests_mapped (snd (ReleasePortByNumber a q))"
proof (cases "lookup_bool (allocatedPorts a) q")
  case False
  assume "tests_mapped a"
  with False show ?thesis by (simp add: ReleasePortByNumber_def)
next
  case True
  assume inv: "tests_mapped a"
  have uniq: "t' = lookup_string (portToTestID a) q" if "testIDToPort a t' = Some q" for t'
  proof -
    from inv that have "portToTestID a q = Some t'" by (simp add: tests_mapped_def)
    then show ?thesis by (simp add: lookup_string_def)
  qed
  show ?thesis
    unfolding tests_mapped_def
  proof (intro allI impI)
    fix t' p
    assume h: "testIDToPort (snd (ReleasePortByNumber a q)) t' = Some p"
    with True have t': "t' \<noteq> lookup_string (portToTestID a) q"
      and old: "testIDToPort a t' = Some p"
      by (auto simp: ReleasePortByNumber_def Let_def split: if_splits)
    from old uniq t' have "p \<noteq> q" by auto
    with inv old True show "portToTestID (snd (ReleasePortByNumber a q)) p = Some t' \<and>
        IsPortAllocated (snd (ReleasePortByNumber a q)) p"
      by (simp add: ReleasePortByNumber_def Let_def tests_mapped_def IsPortAllocated_def
          lookup_bool_def)
  qed
qed

lemma tm_ReleaseAll: "tests_mapped (ReleaseAll a)"
  by (simp add: ReleaseAll_def tests_mapped_def)

lemma tests_mapped_step: "tests_mapped a \<Longrightarrow> tests_mapped (alloc_step a op)"
  by (cases op)
     (simp_all add: tm_AllocatePort tm_AllocatePorts tm_ReleasePort tm_ReleasePortByNumber
        tm_ReleaseAll)

lemma pm_AllocatePort:
  assumes "ports_mapped a"
  shows "ports_mapped (snd (AllocatePort a t))"
proof (cases "testIDToPort a t")
  case (Some q)
  with assms show ?thesis by (simp add: AllocatePort_def)
next
  case None
  show ?thesis
  proof (cases "first_free (allocatedPorts a) (startPort a) (endPort a)")
    case N: None
    with assms None show ?thesis by (simp add: AllocatePort_def)
  next
    case (Some q)
    show ?thesis
      unfolding ports_mapped_def
    proof (intro allI impI)
      fix p
      assume h: "IsPortAllocated (snd (AllocatePort a t)) p"
      show "\<exists>t'. portToTestID (snd (AllocatePort a t)) p = Some t' \<and>
                 testIDToPort (snd (AllocatePort a t)) t' = Some p"
      proof (cases "p = q")
        case True
        with None Some show ?thesis by (simp add: AllocatePort_def)
      next
        case False
        with h None Some have "IsPortAllocated a p"
          by (simp add: AllocatePort_def IsPortAllocated_def lookup_bool_def)
        with assms obtain t' where t': "portToTestID a p = Some t'" "testIDToPort a t' = Some p"
          by (auto simp: ports_mapped_def)
        with None have "t' \<noteq> t" by auto
        with t' False None Some show ?thesis by (simp add: AllocatePort_def)
      qed
    qed
  qed
qed

lemma pm_ReleasePort:
  assumes "ports_mapped a"
  shows "ports_mapped (snd (ReleasePort a t))"
proof (cases "testIDToPort a t")
  case None
  with assms show ?thesis by (simp add: ReleasePort_def)
next
  case (Some q)
  show ?thesis
    unfolding ports_mapped_def
  proof (intro allI impI)
    fix p
    assume h: "IsPortAllocated (snd (ReleasePort a t)) p"
    with Some have pq: "p \<noteq> q" and old: "IsPortAllocated a p"
      by (auto simp: ReleasePort_def IsPortAllocated_def lookup_bool_def split: if_splits)
    from assms old obtain t' where t': "portToTestID a p = Some t'" "testIDToPort a t' = Some p"
      by (auto simp: ports_mapped_def)
    with Some pq have "t' \<noteq> t" by auto
    with t' pq Some show "\<exists>t'. portToTestID (snd (ReleasePort a t)) p = Some t' \<and>
                 testIDToPort (snd (ReleasePort a t)) t' = Some p"
      by (simp add: ReleasePort_def)
  qed
qed

lemma pm_ReleasePortByNumber:
  assumes "ports_mapped a"
  shows "ports_mapped (snd (ReleasePortByNumber a q))"
proof (cases "lookup_bool (allocatedPorts a) q")
  case False
  with assms show ?thesis by (simp add: ReleasePortByNumber_def)
next
  case True
  with assms obtain t where t: "portToTestID a q = Some t" "testIDToPort a t = Some q"
    by (auto simp: ports_mapped_def IsPortAllocated_def)
  show ?thesis
    unfolding ports_mapped_def
  proof (intro allI impI)
    fix p
    assume h: "IsPortAllocated (snd (ReleasePortByNumber a q)) p"
    with True have pq: "p \<noteq> q" and old: "IsPortAllocated a p"
      by (auto simp: ReleasePortByNumber_def Let_def IsPortAllocated_def lookup_bool_def
          split: if_splits)
    from assms old obtain t' where t': "portToTestID a p = Some t'" "testIDToPort a t' = Some p"
      by (auto simp: ports_mapped_def)
    with t pq have "t' \<noteq> t" by auto
    with t t' pq True show "\<exists>t'. portToTestID (snd (ReleasePortByNumber a q)) p = Some t' \<and>
                 testIDToPort (snd (ReleasePortByNumber a q)) t' = Some p"
      by (simp add: ReleasePortByNumber_def Let_def lookup_string_def)
  qed
qed

lemma pm_ReleaseAll: "ports_mapped (ReleaseAll a)"
  by (simp add: ReleaseAll_def ports_mapped_def IsPortAllocated_def lookup_bool_def)

lemma ports_mapped_step:
  "ports_mapped a \<Longrightarrow> \<not> is_AllocatePorts op \<Longrightarrow> ports_mapped (alloc_step a op)"
  by (cases op)
     (simp_all add: pm_AllocatePort pm_ReleasePort pm_ReleasePortByNumber pm_ReleaseAll)

lemma tests_mapped_run: "tests_mapped a \<Longrightarrow> tests_mapped (alloc_run a ops)"
  unfolding alloc_run_def
  by (induction ops arbitrary: a) (simp_all add: tests_mapped_step)

lemma ports_mapped_run:
  "ports_mapped a \<Longrightarrow> \<forall>op \<in> set ops. \<not> is_AllocatePorts op \<Longrightarrow>
   ports_mapped (alloc_run a ops)"
  unfolding alloc_run_def
  by (induction ops arbitrary: a) (simp_all add: ports_mapped_step)

lemma NewAllocator_consistent:
  "NewAllocator s e = Inr a \<Longrightarrow> tests_mapped a \<and> ports_mapped a"
  by (auto simp: NewAllocator_def tests_mapped_def ports_mapped_def IsPortAllocated_def
      lookup_bool_def split: if_splits)

text \<open>
  C2 (amended). After any finite sequence of \<open>AllocatePort\<close>, \<open>AllocatePorts\<close>,
  \<open>ReleasePort\<close>, \<open>ReleasePortByNumber\<close> and \<open>ReleaseAll\<close> calls on a new
  allocator, allocated count plus available count is the capacity, and every
  test-id entry has the matching port entry and an allocated port. A port marked
  allocated has a test-id mapping as long as the sequence contains no
  \<open>AllocatePorts\<close> call; that method reserves ports without a test id.
\<close>

theorem allocator_indices_consistent:
  assumes "NewAllocator s e = Inr a0"
  shows "GetAllocatedCount (alloc_run a0 ops) + GetAvailableCount (alloc_run a0 ops)
           = GetCapacity (alloc_run a0 ops)
       \<and> (\<forall>t p. testIDToPort (alloc_run a0 ops) t = Some p \<longrightarrow>
              portToTestID (alloc_run a0 ops) p = Some t
              \<and> IsPortAllocated (alloc_run a0 ops) p)
       \<and> ((\<forall>op \<in> set ops. \<not> is_AllocatePorts op) \<longrightarrow>
            (\<forall>p. IsPortAllocated (alloc_run a0 ops) p \<longleftrightarrow>
                 (\<exists>t. portToTestID (alloc_run a0 ops) p = Some t
                    \<and> testIDToPort (alloc_run a0 ops) t = Some p)))"
proof (intro conjI impI)
  show "GetAllocatedCount (alloc_run a0 ops) + GetAvailableCount (alloc_run a0 ops)
           = GetCapacity (alloc_run a0 ops)"
    by (rule count_equation)
next
  from assms have tm: "tests_mapped (alloc_run a0 ops)"
    by (simp add: NewAllocator_consistent tests_mapped_run)
  then show "\<forall>t p. testIDToPort (alloc_run a0 ops) t = Some p \<longrightarrow>
              portToTestID (alloc_run a0 ops) p = Some t
              \<and> IsPortAllocated (alloc_run a0 ops) p"
    by (simp add: tests_mapped_def)
  assume "\<forall>op \<in> set ops. \<not> is_AllocatePorts op"
  with assms have pm: "ports_mapped (alloc_run a0 ops)"
    by (simp add: NewAllocator_consistent ports_mapped_run)
  show "\<forall>p. IsPortAllocated (alloc_run a0 ops) p \<longleftrightarrow>
                 (\<exists>t. portToTestID (alloc_run a0 ops) p = Some t
                    \<and> testIDToPort (alloc_run a0 ops) t = Some p)"
  proof (intro allI iffI)
    fix p
    assume "IsPortAllocated (alloc_run a0 ops) p"
    with pm show "\<exists>t. portToTestID (alloc_run a0 ops) p = Some t
                    \<and> testIDToPort (alloc_run a0 ops) t = Some p"
      by (simp add: ports_mapped_def)
  next
    fix p
    assume "\<exists>t. portToTestID (alloc_run a0 ops) p = Some t
                    \<and> testIDToPort (alloc_run a0 ops) t = Some p"
    with tm show "IsPortAllocated (alloc_run a0 ops) p"
      by (auto simp: tests_mapped_def)
  qed
qed

theorem allocator_indices_consistent_witness:
  "NewAllocator 5201 5205 = Inr alloc_5201_5205
   \<and> GetAllocatedCount (alloc_run alloc_5201_5205 [OpAllocatePort ''test1''])
       + GetAvailableCount (alloc_run alloc_5201_5205 [OpAllocatePort ''test1''])
       = GetCapacity (alloc_run alloc_5201_5205 [OpAllocatePort ''test1''])
   \<and> testIDToPort (alloc_run alloc_5201_5205 [OpAllocatePort ''test1'']) ''test1'' = Some 5201
   \<and> portToTestID (alloc_run alloc_5201_5205 [OpAllocatePort ''test1'']) 5201 = Some ''test1''
   \<and> IsPortAllocated (alloc_run alloc_5201_5205 [OpAllocatePort ''test1'']) 5201
   \<and> \<not> is_AllocatePorts (OpAllocatePort ''test1'')
   \<and> (\<forall>p. IsPortAllocated (alloc_run alloc_5201_5205 [OpAllocatePort ''test1'']) p \<longleftrightarrow>
          (\<exists>t. portToTestID (alloc_run alloc_5201_5205 [OpAllocatePort ''test1'']) p = Some t
             \<and> testIDToPort (alloc_run alloc_5201_5205 [OpAllocatePort ''test1'']) t = Some p))"
proof -
  have h: "NewAllocator 5201 5205 = Inr alloc_5201_5205"
    by (simp add: NewAllocator_def alloc_5201_5205_def)
  have g: "\<forall>op \<in> set [OpAllocatePort ''test1'']. \<not> is_AllocatePorts op"
    by simp
  have t: "testIDToPort (alloc_run alloc_5201_5205 [OpAllocatePort ''test1'']) ''test1''
             = Some 5201"
    by (simp add: alloc_run_def AllocatePort_def alloc_5201_5205_def first_free_5201)
  have na: "\<not> is_AllocatePorts (OpAllocatePort ''test1'')"
    by simp
  from allocator_indices_consistent [OF h, of "[OpAllocatePort ''test1'']"] h g t na
  show ?thesis by blast
qed

text \<open>After \<open>AllocatePorts 1\<close> on a new allocator, port 5201 is marked allocated and
  has no port entry, hence no test-id mapping.\<close>

theorem allocated_without_test_counterexample:
  "NewAllocator 5201 5205 = Inr alloc_5201_5205
   \<and> IsPortAllocated (alloc_run alloc_5201_5205 [OpAllocatePorts 1]) 5201
   \<and> portToTestID (alloc_run alloc_5201_5205 [OpAllocatePorts 1]) 5201 = None"
  by (simp add: NewAllocator_def alloc_5201_5205_def alloc_run_def AllocatePorts_def
      collect_free.simps Let_def IsPortAllocated_def lookup_bool_def)

section \<open>Properties of the capacity accountant\<close>

lemma wrap64_id: "- (2 ^ 63) \<le> x \<Longrightarrow> x < 2 ^ 63 \<Longrightarrow> wrap64 x = x"
  by (simp add: wrap64_def)

lemma ReserveSlots_in_range:
  assumes "0 \<le> usedSlots c" "usedSlots c \<le> maxProcesses c" "count_ok (maxProcesses c) n"
  shows "ReserveSlots c n =
           (if usedSlots c + n \<le> maxProcesses c
            then (Inr (), c\<lparr>usedSlots := usedSlots c + n\<rparr>)
            else (Inl (InsufficientCapacity n (maxProcesses c - usedSlots c)), c))"
proof -
  from assms have "wrap64 (usedSlots c + n) = usedSlots c + n"
    by (intro wrap64_id) (auto simp: count_ok_def)
  moreover from assms have "wrap64 (maxProcesses c - usedSlots c) = maxProcesses c - usedSlots c"
    by (intro wrap64_id) (auto simp: count_ok_def)
  ultimately show ?thesis
    by (simp add: ReserveSlots_def)
qed

lemma ReleaseSlots_in_range:
  assumes "0 \<le> usedSlots c" "usedSlots c \<le> maxProcesses c" "count_ok (maxProcesses c) n"
  shows "ReleaseSlots c n = c\<lparr>usedSlots := max 0 (usedSlots c - n)\<rparr>"
proof -
  from assms have "wrap64 (usedSlots c - n) = usedSlots c - n"
    by (intro wrap64_id) (auto simp: count_ok_def)
  then show ?thesis
    by (simp add: ReleaseSlots_def Let_def max_def)
qed

lemma capacity_step_bounds:
  assumes "0 \<le> usedSlots c" "usedSlots c \<le> maxProcesses c"
    "count_ok (maxProcesses c) (op_count op)"
  shows "0 \<le> usedSlots (capacity_step c op)
       \<and> usedSlots (capacity_step c op) \<le> maxProcesses (capacity_step c op)
       \<and> maxProcesses (capacity_step c op) = maxProcesses c"
proof (cases op)
  case (OpReserve n)
  with assms show ?thesis
    by (simp add: ReserveSlots_in_range count_ok_def)
next
  case (OpRelease n)
  with assms show ?thesis
    by (simp add: ReleaseSlots_in_range count_ok_def)
qed

lemma capacity_run_bounds:
  assumes "0 \<le> usedSlots c" "usedSlots c \<le> maxProcesses c"
    "\<forall>op \<in> set ops. count_ok (maxProcesses c) (op_count op)"
  shows "0 \<le> usedSlots (capacity_run c ops)
       \<and> usedSlots (capacity_run c ops) \<le> maxProcesses (capacity_run c ops)
       \<and> maxProcesses (capacity_run c ops) = maxProcesses c"
  using assms unfolding capacity_run_def
proof (induction ops arbitrary: c)
  case Nil
  then show ?case by simp
next
  case (Cons op ops)
  from Cons.prems have step: "0 \<le> usedSlots (capacity_step c op)"
    "usedSlots (capacity_step c op) \<le> maxProcesses (capacity_step c op)"
    "maxProcesses (capacity_step c op) = maxProcesses c"
    using capacity_step_bounds [of c op] by simp_all
  with Cons.prems have "\<forall>op' \<in> set ops.
      count_ok (maxProcesses (capacity_step c op)) (op_count op')"
    by simp
  with step Cons.IH [of "capacity_step c op"] show ?case
    by simp
qed

text \<open>
  C5 (amended). For a bound \<open>maxp \<ge> 0\<close> and every sequence of \<open>ReserveSlots\<close> and
  \<open>ReleaseSlots\<close> calls whose counts are not negative (and small enough for
  \<open>used + n\<close> not to overflow), \<open>0 \<le> used \<le> maxp\<close> holds after the sequence, hence
  after each call of it; in such a state \<open>ReserveSlots n\<close> adds \<open>n\<close> to \<open>used\<close>
  exactly when \<open>used + n \<le> maxp\<close> and otherwise fails with \<open>used\<close> unchanged, and
  \<open>ReleaseSlots n\<close> subtracts \<open>n\<close> and stops at zero.
\<close>

theorem capacity_used_bounded:
  assumes "0 \<le> maxp"
    and "\<forall>op \<in> set ops. count_ok maxp (op_count op)"
    and "count_ok maxp n"
    and "c = capacity_run (NewCapacityCalculator maxp) ops"
  shows "0 \<le> usedSlots c \<and> usedSlots c \<le> maxp \<and> maxProcesses c = maxp
       \<and> ReserveSlots c n =
           (if usedSlots c + n \<le> maxp
            then (Inr (), c\<lparr>usedSlots := usedSlots c + n\<rparr>)
            else (Inl (InsufficientCapacity n (maxp - usedSlots c)), c))
       \<and> ReleaseSlots c n = c\<lparr>usedSlots := max 0 (usedSlots c - n)\<rparr>"
proof -
  from assms have b: "0 \<le> usedSlots c" "usedSlots c \<le> maxProcesses c" "maxProcesses c = maxp"
    using capacity_run_bounds [of "NewCapacityCalculator maxp" ops]
    by (simp_all add: NewCapacityCalculator_def)
  with assms(3) show ?thesis
    using ReserveSlots_in_range [of c n] ReleaseSlots_in_range [of c n] by simp
qed

theorem capacity_used_bounded_witness:
  "(0::int) \<le> 2
   \<and> count_ok 2 (op_count (OpReserve 1)) \<and> count_ok 2 (op_count (OpRelease 1))
   \<and> count_ok 2 2
   \<and> usedSlots (capacity_run (NewCapacityCalculator 2) [OpReserve 1, OpReserve 1, OpRelease 1]) = 1
   \<and> fst (ReserveSlots
        (capacity_run (NewCapacityCalculator 2) [OpReserve 1, OpReserve 1, OpRelease 1]) 2)
       = Inl (InsufficientCapacity 2 1)
   \<and> usedSlots (ReleaseSlots
        (capacity_run (NewCapacityCalculator 2) [OpReserve 1, OpReserve 1, OpRelease 1]) 2) = 0"
proof -
  have ops: "\<forall>op \<in> set [OpReserve 1, OpReserve 1, OpRelease 1]. count_ok 2 (op_count op)"
    by (simp add: count_ok_def)
  have n: "count_ok 2 2"
    by (simp add: count_ok_def)
  have u: "usedSlots (capacity_run (NewCapacityCalculator 2)
             [OpReserve 1, OpReserve 1, OpRelease 1]) = 1"
    by (simp add: capacity_run_def NewCapacityCalculator_def ReserveSlots_def
        ReleaseSlots_def wrap64_def Let_def)
  from capacity_used_bounded [OF _ ops n refl] ops n u show ?thesis
    by simp
qed

text \<open>A negative count passes the guard of \<open>ReserveSlots\<close> and drives \<open>used\<close> below
  zero.\<close>

theorem ReserveSlots_negative_counterexample:
  "fst (ReserveSlots (NewCapacityCalculator 10) (- 1)) = Inr ()
   \<and> usedSlots (snd (ReserveSlots (NewCapacityCalculator 10) (- 1))) = - 1"
  by (simp add: ReserveSlots_def NewCapacityCalculator_def wrap64_def)

section \<open>Properties of the result collector\<close>

text \<open>
  C10. Storing a second result for a test id that already has one replaces the map
  entry and still increments a counter: after two successful results for
  \<open>test-1\<close> the collector holds one result and reports two completed tests, so
  completed count plus failed count is not the count of stored results.
\<close>

theorem collector_overwrite_double_counts:
  "GetCount (snd (StoreIperfResult
       (snd (StoreIperfResult (NewCollector []) ''test-1'' (Some iperf_ok)))
       ''test-1'' (Some iperf_ok))) = 1
   \<and> GetCompletedCount (snd (StoreIperfResult
       (snd (StoreIperfResult (NewCollector []) ''test-1'' (Some iperf_ok)))
       ''test-1'' (Some iperf_ok))) = 2
   \<and> GetFailedCount (snd (StoreIperfResult
       (snd (StoreIperfResult (NewCollector []) ''test-1'' (Some iperf_ok)))
       ''test-1'' (Some iperf_ok))) = 0"
  by (simp add: StoreIperfResult_def StoreResult_def NewCollector_def iperf_ok_def Let_def
      GetCount_def GetCompletedCount_def GetFailedCount_def)

section \<open>Properties of the aggregator summary\<close>





section \<open>Properties of the argument vector\<close>

lemma digit_char_in: "k < 10 \<Longrightarrow> digit_char k \<in> set ''0123456789''"
  unfolding digit_char_def by (rule nth_mem) simp

lemma show_nat_digits: "set (show_nat n) \<subseteq> set ''0123456789''"
proof (induction n rule: show_nat.induct)
  case (1 n)
  show ?case
  proof (cases "n < 10")
    case True
    then show ?thesis
      using digit_char_in [of n] by (simp add: show_nat.simps [of n])
  next
    case False
    have "n mod 10 < 10" by simp
    from digit_char_in [OF this] False "1.IH" show ?thesis
      by (simp add: show_nat.simps [of n])
  qed
qed

lemma show_nat_not_flag:
  "show_nat n \<noteq> [CHR ''-'', c]" "c \<notin> set ''0123456789'' \<Longrightarrow> show_nat n \<noteq> [c]"
  using show_nat_digits [of n] by auto

lemma show_int_not_flag:
  "show_int n \<noteq> ''-u''" "show_int n \<noteq> ''-C''" "show_int n \<noteq> ''-M''" "show_int n \<noteq> ''-N''"
  using show_nat_not_flag(1) [of "nat n"] show_nat_not_flag(2) [of _ "nat (- n)"]
  by (auto simp: show_int_def)

lemma ToCommandArgs_members:
  "set (ToCommandArgs p) \<subseteq>
     (if Protocol p = ProtocolUDP then {''-u''} else {''-C'', ''-M'', ''-N''})
     \<union> {''-t'', ''-b'', ''-w'', ''-P'', ''--bidir'', ''-R'', ''-l'', ''-S'', ''-Z'', ''-O'', ''-J''}
     \<union> {show_int (Duration p), show_int (Parallel p), show_int (BufferLength p),
         show_int (MSS p), show_int (TOS p), show_int (OmitSeconds p)}
     \<union> set (verbatim_args p)"
  by (auto simp: ToCommandArgs_def verbatim_args_def)

text \<open>
  C9 (amended). For every test profile none of whose verbatim strings (bandwidth,
  window size, congestion-control name under TCP, extra flags and their values) is
  one of \<open>-u\<close>, \<open>-C\<close>, \<open>-M\<close>, \<open>-N\<close>: the argument vector contains \<open>-u\<close>
  exactly when the protocol is UDP, and under UDP it contains none of \<open>-C\<close>,
  \<open>-M\<close>, \<open>-N\<close>, whatever the congestion-control, MSS and no-delay settings are.
\<close>

theorem ToCommandArgs_udp_flags:
  assumes "set (verbatim_args p) \<inter> {''-u'', ''-C'', ''-M'', ''-N''} = {}"
  shows "(''-u'' \<in> set (ToCommandArgs p) \<longleftrightarrow> Protocol p = ProtocolUDP)
       \<and> (Protocol p = ProtocolUDP \<longrightarrow>
            ''-C'' \<notin> set (ToCommandArgs p) \<and> ''-M'' \<notin> set (ToCommandArgs p)
            \<and> ''-N'' \<notin> set (ToCommandArgs p))"
proof -
  have u: "''-u'' \<in> set (ToCommandArgs p)" if "Protocol p = ProtocolUDP"
    using that by (simp add: ToCommandArgs_def)
  have nu: "''-u'' \<notin> set (ToCommandArgs p)" if "Protocol p \<noteq> ProtocolUDP"
  proof
    assume "''-u'' \<in> set (ToCommandArgs p)"
    from subsetD [OF ToCommandArgs_members this] that assms show False
      by (auto simp: show_int_not_flag show_int_not_flag [THEN not_sym])
  qed
  have nt: "f \<notin> set (ToCommandArgs p)"
    if "Protocol p = ProtocolUDP" "f \<in> {''-C'', ''-M'', ''-N''}" for f
  proof
    assume "f \<in> set (ToCommandArgs p)"
    from subsetD [OF ToCommandArgs_members this] that assms show False
      by (auto simp: show_int_not_flag show_int_not_flag [THEN not_sym])
  qed
  from u nu nt show ?thesis by blast
qed

theorem ToCommandArgs_udp_flags_witness:
  "set (verbatim_args profile_udp) \<inter> {''-u'', ''-C'', ''-M'', ''-N''} = {}
   \<and> ''-u'' \<in> set (ToCommandArgs profile_udp)
   \<and> ''-C'' \<notin> set (ToCommandArgs profile_udp)
   \<and> ''-M'' \<notin> set (ToCommandArgs profile_udp)
   \<and> ''-N'' \<notin> set (ToCommandArgs profile_udp)"
proof -
  have h: "set (verbatim_args profile_udp) \<inter> {''-u'', ''-C'', ''-M'', ''-N''} = {}"
    by (simp add: verbatim_args_def profile_udp_def profile_default_def ProtocolUDP_def)
  have p: "Protocol profile_udp = ProtocolUDP"
    by (simp add: profile_udp_def ProtocolUDP_def)
  from ToCommandArgs_udp_flags [OF h] h p show ?thesis by simp
qed

text \<open>A TCP profile whose extra flags hold \<open>-u\<close> gets \<open>-u\<close> in its argument
  vector.\<close>

theorem ToCommandArgs_extra_flag_counterexample:
  "Protocol profile_tcp_extra_u \<noteq> ProtocolUDP
   \<and> ''-u'' \<in> set (ToCommandArgs profile_tcp_extra_u)"
  by (simp add: profile_tcp_extra_u_def profile_default_def ProtocolUDP_def ToCommandArgs_def)

section \<open>Properties of the StartServers and StartClients responses\<close>

lemma length_server_outcomes: "length (server_outcomes w st ports) = length ports"
  by (induction ports arbitrary: st) simp_all

lemma length_client_outcomes: "length (client_outcomes m targets) = length targets"
  by (induction targets arbitrary: m) simp_all

lemma started_items_nonempty:
  "length os = length xs \<Longrightarrow> started_items xs os \<noteq> [] \<longleftrightarrow> None \<in> set os"
  by (induction xs os rule: started_items.induct) auto

lemma length_started_failed:
  "length os = length xs \<Longrightarrow>
   length (started_items xs os) + length (failed_items xs os) = length xs"
  by (induction xs os rule: started_items.induct) auto

lemma start_servers_loop_eq:
  "fst (start_servers_loop w st ports started errs) =
     (started @ started_items ports (server_outcomes w st ports),
      errs @ failed_items ports (server_outcomes w st ports))"
proof (induction ports arbitrary: st started errs)
  case Nil
  then show ?case by simp
next
  case (Cons port ports)
  obtain r st' where r: "StartServer w st (sint port) = (r, st')"
    by (cases "StartServer w st (sint port)")
  show ?case
  proof (cases r)
    case None
    with r Cons.IH [of st' "started @ [port]" errs] show ?thesis by simp
  next
    case (Some e)
    with r Cons.IH [of st' started "errs @ [(port, e)]"] show ?thesis by simp
  qed
qed

lemma start_clients_loop_eq:
  "fst (start_clients_loop m targets started errs) =
     (started @ started_items (map TargetTestId targets) (client_outcomes m targets),
      errs @ failed_items (map TargetTestId targets) (client_outcomes m targets))"
proof (induction targets arbitrary: m started errs)
  case Nil
  then show ?case by simp
next
  case (Cons target targets)
  obtain r m' where r:
    "StartClient m (TargetTestId target) (TargetDestinationIp target)
       (sint (TargetDestinationPort target))
       (convertProfileToIperfConfig (TargetProfile target)) = (r, m')"
    by (cases "StartClient m (TargetTestId target) (TargetDestinationIp target)
       (sint (TargetDestinationPort target))
       (convertProfileToIperfConfig (TargetProfile target))")
  show ?case
  proof (cases r)
    case None
    with r Cons.IH [of m' "started @ [TargetTestId target]" errs] show ?thesis
      by (simp add: Let_def)
  next
    case (Some e)
    with r Cons.IH [of m' started "errs @ [(TargetTestId target, e)]"] show ?thesis
      by (simp add: Let_def)
  qed
qed

lemma StartServers_response:
  "SrvSuccess (fst (StartServers w st ports)) = (None \<in> set (server_outcomes w st ports))
   \<and> StartedPorts (fst (StartServers w st ports)) =
       started_items ports (server_outcomes w st ports)
   \<and> SrvErrors (fst (StartServers w st ports)) =
       failed_items ports (server_outcomes w st ports)"
proof (cases ports)
  case Nil
  then show ?thesis by (simp add: StartServers_def)
next
  case (Cons p ps)
  obtain s e st' where l: "start_servers_loop w st ports [] [] = ((s, e), st')"
    by (cases "start_servers_loop w st ports [] []") auto
  with start_servers_loop_eq [of w st ports "[]" "[]"]
  have se: "s = started_items ports (server_outcomes w st ports)"
    "e = failed_items ports (server_outcomes w st ports)"
    by simp_all
  have "s \<noteq> [] \<longleftrightarrow> None \<in> set (server_outcomes w st ports)"
    unfolding se by (rule started_items_nonempty) (rule length_server_outcomes)
  with Cons l se show ?thesis
    by (simp add: StartServers_def)
qed

lemma StartClients_response:
  "CliSuccess (fst (StartClients m targets)) = (None \<in> set (client_outcomes m targets))
   \<and> StartedTestIds (fst (StartClients m targets)) =
       started_items (map TargetTestId targets) (client_outcomes m targets)
   \<and> CliErrors (fst (StartClients m targets)) =
       failed_items (map TargetTestId targets) (client_outcomes m targets)"
proof (cases targets)
  case Nil
  then show ?thesis by (simp add: StartClients_def)
next
  case (Cons t ts)
  obtain s e m' where l: "start_clients_loop m targets [] [] = ((s, e), m')"
    by (cases "start_clients_loop m targets [] []") auto
  with start_clients_loop_eq [of m targets "[]" "[]"]
  have se: "s = started_items (map TargetTestId targets) (client_outcomes m targets)"
    "e = failed_items (map TargetTestId targets) (client_outcomes m targets)"
    by simp_all
  have "s \<noteq> [] \<longleftrightarrow> None \<in> set (client_outcomes m targets)"
    unfolding se by (rule started_items_nonempty) (simp add: length_client_outcomes)
  with Cons l se show ?thesis
    by (simp add: StartClients_def)
qed

text \<open>
  C7. The response of \<open>StartServers\<close> has \<open>success = true\<close> exactly when at least one
  port of the request started; \<open>started_ports\<close> are the ports that started,
  \<open>errors\<close> has one entry for each port that failed, in request order, and each port
  is in one of the two. The same holds for \<open>StartClients\<close> with the test ids of the
  targets.
\<close>

theorem start_responses_partial_success:
  "SrvSuccess (fst (StartServers w st ports)) = (None \<in> set (server_outcomes w st ports))
   \<and> StartedPorts (fst (StartServers w st ports)) =
       started_items ports (server_outcomes w st ports)
   \<and> SrvErrors (fst (StartServers w st ports)) =
       failed_items ports (server_outcomes w st ports)
   \<and> length (StartedPorts (fst (StartServers w st ports)))
       + length (SrvErrors (fst (StartServers w st ports))) = length ports
   \<and> CliSuccess (fst (StartClients m targets)) = (None \<in> set (client_outcomes m targets))
   \<and> StartedTestIds (fst (StartClients m targets)) =
       started_items (map TargetTestId targets) (client_outcomes m targets)
   \<and> CliErrors (fst (StartClients m targets)) =
       failed_items (map TargetTestId targets) (client_outcomes m targets)
   \<and> length (StartedTestIds (fst (StartClients m targets)))
       + length (CliErrors (fst (StartClients m targets))) = length targets"
  using StartServers_response [of w st ports] StartClients_response [of m targets]
    length_started_failed [of "server_outcomes w st ports" ports]
    length_started_failed [of "client_outcomes m targets" "map TargetTestId targets"]
  by (simp add: length_server_outcomes length_client_outcomes)

lemma outcomes_two_ports:
  "server_outcomes world_pid_100 (NewManager (NewCapacityCalculator 1), 0) [5201, 5202] =
     [None, Some (NoCapacity (InsufficientCapacity 1 0))]"
  by (simp add: StartServer_def NewManager_def NewCapacityCalculator_def ReserveSlots_def
      wrap64_def world_pid_100_def Let_def)

text \<open>Two ports on a daemon with one process slot: the first starts, the second fails
  for lack of capacity, and the response reports success.\<close>

theorem start_responses_partial_success_witness:
  "SrvSuccess (fst (StartServers world_pid_100 (NewManager (NewCapacityCalculator 1), 0)
       [5201, 5202]))
   \<and> StartedPorts (fst (StartServers world_pid_100 (NewManager (NewCapacityCalculator 1), 0)
       [5201, 5202])) = [5201]
   \<and> SrvErrors (fst (StartServers world_pid_100 (NewManager (NewCapacityCalculator 1), 0)
       [5201, 5202])) = [(5202, NoCapacity (InsufficientCapacity 1 0))]"
proof -
  note t = start_responses_partial_success
    [of world_pid_100 "(NewManager (NewCapacityCalculator 1), 0)" "[5201, 5202]"
        "NewManager (NewCapacityCalculator 1)" "[]"]
  from t [unfolded outcomes_two_ports] show ?thesis by simp
qed

section \<open>Properties of the full-mesh topology\<close>

lemma add_nodes_inv:
  "distinct (map ID (nodeList r)) \<Longrightarrow> dom (nodes r) = ID ` set (nodeList r) \<Longrightarrow>
   distinct (map ID (nodeList (add_nodes r ns)))
   \<and> dom (nodes (add_nodes r ns)) = ID ` set (nodeList (add_nodes r ns))"
  unfolding add_nodes_def
proof (induction ns arbitrary: r)
  case Nil
  then show ?case by simp
next
  case (Cons n ns)
  have "distinct (map ID (nodeList (snd (AddNode r n))))
      \<and> dom (nodes (snd (AddNode r n))) = ID ` set (nodeList (snd (AddNode r n)))"
    using Cons.prems by (auto simp: AddNode_def)
  with Cons.IH [of "snd (AddNode r n)"] show ?case by simp
qed

lemma registry_distinct: "distinct (map ID (GetAllNodes (add_nodes NewNodeRegistry ns)))"
  using add_nodes_inv [of NewNodeRegistry ns]
  by (simp add: NewNodeRegistry_def GetAllNodes_def)

lemma mesh_inner_pairs:
  "map pair_ends (Pairs (fst (mesh_inner g s ds st))) =
     map pair_ends (Pairs (fst st)) @ map (\<lambda>d. (ID s, ID d)) (filter (\<lambda>d. ID s \<noteq> ID d) ds)"
  by (induction ds arbitrary: st) (simp_all add: Let_def pair_ends_def)

lemma mesh_outer_pairs:
  "map pair_ends (Pairs (fst (mesh_outer g srcs all st))) =
     map pair_ends (Pairs (fst st))
     @ concat (map (\<lambda>s. map (\<lambda>d. (ID s, ID d)) (filter (\<lambda>d. ID s \<noteq> ID d) all)) srcs)"
  by (induction srcs arbitrary: st) (simp_all add: mesh_inner_pairs)

lemma GenerateFullMesh_pairs:
  "2 \<le> length (GetAllNodes (gen_nodes g)) \<Longrightarrow>
   \<exists>topo. GenerateFullMesh g = Inr topo
     \<and> map pair_ends (Pairs topo) = ordered_pairs (GetAllNodes (gen_nodes g))"
  by (simp add: GenerateFullMesh_def Let_def mesh_outer_pairs ordered_pairs_def)

lemma distinct_ordered_pairs_aux:
  "distinct (map ID srcs) \<Longrightarrow> distinct (map ID all) \<Longrightarrow>
   distinct (concat (map (\<lambda>s. map (\<lambda>d. (ID s, ID d)) (filter (\<lambda>d. ID s \<noteq> ID d) all)) srcs))"
proof (induction srcs)
  case Nil
  then show ?case by simp
next
  case (Cons s srcs)
  have inner: "distinct (map (\<lambda>d. (ID s, ID d)) (filter (\<lambda>d. ID s \<noteq> ID d) all))"
  proof -
    from Cons.prems(2) have "distinct (map ID (filter (\<lambda>d. ID s \<noteq> ID d) all))"
      by (rule distinct_map_filter)
    then have "distinct (map (Pair (ID s)) (map ID (filter (\<lambda>d. ID s \<noteq> ID d) all)))"
      by (simp add: distinct_map inj_on_def)
    then show ?thesis by (simp add: comp_def)
  qed
  from Cons.prems(1) have "ID s \<notin> ID ` set srcs" by auto
  then have disj: "set (map (\<lambda>d. (ID s, ID d)) (filter (\<lambda>d. ID s \<noteq> ID d) all))
      \<inter> set (concat (map (\<lambda>s. map (\<lambda>d. (ID s, ID d)) (filter (\<lambda>d. ID s \<noteq> ID d) all)) srcs))
      = {}"
    by auto
  from Cons inner disj show ?case by simp
qed

lemma distinct_ordered_pairs: "distinct (map ID ns) \<Longrightarrow> distinct (ordered_pairs ns)"
  unfolding ordered_pairs_def by (rule distinct_ordered_pairs_aux)

lemma set_ordered_pairs:
  "set (ordered_pairs ns) = {(s, d). s \<in> ID ` set ns \<and> d \<in> ID ` set ns \<and> s \<noteq> d}"
  by (auto simp: ordered_pairs_def)

lemma count_list_distinct: "distinct xs \<Longrightarrow> x \<in> set xs \<Longrightarrow> count_list xs x = 1"
  by (induction xs) auto

lemma mesh_inner_profiles:
  "\<forall>pair \<in> set (Pairs (fst st)).
      Profile pair = getProfileForPair g (ID (Source pair)) (ID (Destination pair)) \<Longrightarrow>
   \<forall>pair \<in> set (Pairs (fst (mesh_inner g s ds st))).
      Profile pair = getProfileForPair g (ID (Source pair)) (ID (Destination pair))"
proof (induction ds arbitrary: st)
  case Nil
  then show ?case by simp
next
  case (Cons d ds)
  show ?case
  proof (cases "ID s = ID d")
    case True
    with Cons show ?thesis by simp
  next
    case False
    then show ?thesis
      unfolding mesh_inner.simps Let_def
      by (simp only: if_False) (rule Cons.IH, use Cons.prems in simp)
  qed
qed

lemma mesh_outer_profiles:
  "\<forall>pair \<in> set (Pairs (fst st)).
      Profile pair = getProfileForPair g (ID (Source pair)) (ID (Destination pair)) \<Longrightarrow>
   \<forall>pair \<in> set (Pairs (fst (mesh_outer g srcs all st))).
      Profile pair = getProfileForPair g (ID (Source pair)) (ID (Destination pair))"
proof (induction srcs arbitrary: st)
  case Nil
  then show ?case by simp
next
  case (Cons s srcs)
  from Cons.prems have "\<forall>pair \<in> set (Pairs (fst (mesh_inner g s all st))).
      Profile pair = getProfileForPair g (ID (Source pair)) (ID (Destination pair))"
    by (rule mesh_inner_profiles)
  from Cons.IH [OF this] show ?case by simp
qed

lemma count_ordered_pairs:
  assumes "distinct (map ID ns)"
  shows "count_list (ordered_pairs ns) (s, d) =
           (if s \<in> ID ` set ns \<and> d \<in> ID ` set ns \<and> s \<noteq> d then 1 else 0)"
proof (cases "(s, d) \<in> set (ordered_pairs ns)")
  case True
  with assms have "count_list (ordered_pairs ns) (s, d) = 1"
    by (simp add: count_list_distinct distinct_ordered_pairs)
  with True show ?thesis by (simp add: set_ordered_pairs)
next
  case False
  then have "count_list (ordered_pairs ns) (s, d) = 0"
    by (simp add: count_list_0_iff)
  with False show ?thesis by (simp add: set_ordered_pairs)
qed

text \<open>
  C3 (amended). The topology planner's \<open>GenerateFullMesh\<close> on a registry of at least
  two nodes yields exactly one test pair for each ordered pair of distinct nodes,
  whatever the profiles are, so also when they are bidirectional; each pair carries the
  profile chosen for it, and a bidirectional profile reaches the measurement binary as
  the \<open>--bidir\<close> flag (and keeps its flag through the protobuf conversions).
\<close>

theorem full_mesh_one_pair_per_ordered_pair:
  assumes "gen_nodes g = add_nodes NewNodeRegistry input"
    and "2 \<le> length (GetAllNodes (gen_nodes g))"
  shows "\<exists>topo. GenerateFullMesh g = Inr topo
     \<and> map pair_ends (Pairs topo) = ordered_pairs (GetAllNodes (gen_nodes g))
     \<and> (\<forall>s d. count_list (map pair_ends (Pairs topo)) (s, d) =
            (if s \<in> ID ` set (GetAllNodes (gen_nodes g))
                \<and> d \<in> ID ` set (GetAllNodes (gen_nodes g)) \<and> s \<noteq> d then 1 else 0))
     \<and> (\<forall>pair \<in> set (Pairs topo).
            Profile pair = getProfileForPair g (ID (Source pair)) (ID (Destination pair)))
     \<and> (\<forall>p. Bidirectional p \<longrightarrow>
            ''--bidir'' \<in> set (ToCommandArgs p)
            \<and> PbBidirectional (ConvertProfileToProto (Some p))
            \<and> CfgBidirectional (convertProfileToIperfConfig (Some (ConvertProfileToProto (Some p)))))"
proof -
  from assms(2) obtain topo where topo: "GenerateFullMesh g = Inr topo"
    and ends: "map pair_ends (Pairs topo) = ordered_pairs (GetAllNodes (gen_nodes g))"
    using GenerateFullMesh_pairs by blast
  from assms(1) have d: "distinct (map ID (GetAllNodes (gen_nodes g)))"
    by (simp add: registry_distinct)
  have prof: "\<forall>pair \<in> set (Pairs topo).
            Profile pair = getProfileForPair g (ID (Source pair)) (ID (Destination pair))"
    using topo assms(2)
      mesh_outer_profiles [of "(\<lparr>Pairs = [], ServerPorts = [], ClientTests = []\<rparr>, 0)" g
        "GetAllNodes (gen_nodes g)" "GetAllNodes (gen_nodes g)"]
    by (auto simp: GenerateFullMesh_def Let_def)
  have bidir: "\<forall>p. Bidirectional p \<longrightarrow>
            ''--bidir'' \<in> set (ToCommandArgs p)
            \<and> PbBidirectional (ConvertProfileToProto (Some p))
            \<and> CfgBidirectional (convertProfileToIperfConfig (Some (ConvertProfileToProto (Some p))))"
    by (simp add: ToCommandArgs_def ConvertProfileToProto_def convertProfileToIperfConfig_def)
  have cnt: "\<forall>s d. count_list (map pair_ends (Pairs topo)) (s, d) =
            (if s \<in> ID ` set (GetAllNodes (gen_nodes g))
                \<and> d \<in> ID ` set (GetAllNodes (gen_nodes g)) \<and> s \<noteq> d then 1 else 0)"
    unfolding ends using d by (simp only: count_ordered_pairs) simp
  show ?thesis
    by (rule exI [of _ topo]) (intro conjI topo ends cnt prof bidir)
qed

lemma nodes_ab: "GetAllNodes (add_nodes NewNodeRegistry [node_a, node_b]) = [node_a, node_b]"
  by (simp add: add_nodes_def AddNode_def NewNodeRegistry_def GetAllNodes_def node_a_def
      node_b_def)

theorem full_mesh_one_pair_per_ordered_pair_witness:
  "gen_nodes gen_ab_bidir = add_nodes NewNodeRegistry [node_a, node_b]
   \<and> 2 \<le> length (GetAllNodes (gen_nodes gen_ab_bidir))
   \<and> Bidirectional profile_bidir
   \<and> (\<exists>topo. GenerateFullMesh gen_ab_bidir = Inr topo
        \<and> map pair_ends (Pairs topo) = [(''a'', ''b''), (''b'', ''a'')])
   \<and> ''--bidir'' \<in> set (ToCommandArgs profile_bidir)"
proof -
  have h1: "gen_nodes gen_ab_bidir = add_nodes NewNodeRegistry [node_a, node_b]"
    by (simp add: gen_ab_bidir_def NewGenerator_def)
  have h2: "2 \<le> length (GetAllNodes (gen_nodes gen_ab_bidir))"
    unfolding h1 nodes_ab by simp
  have b: "Bidirectional profile_bidir"
    by (simp add: profile_bidir_def)
  have op: "ordered_pairs (GetAllNodes (gen_nodes gen_ab_bidir)) = [(''a'', ''b''), (''b'', ''a'')]"
    unfolding h1 nodes_ab by (simp add: ordered_pairs_def node_a_def node_b_def)
  from full_mesh_one_pair_per_ordered_pair [OF h1 h2]
  obtain topo where t: "GenerateFullMesh gen_ab_bidir = Inr topo"
    "map pair_ends (Pairs topo) = ordered_pairs (GetAllNodes (gen_nodes gen_ab_bidir))"
    and bd: "\<forall>p. Bidirectional p \<longrightarrow> ''--bidir'' \<in> set (ToCommandArgs p)
            \<and> PbBidirectional (ConvertProfileToProto (Some p))
            \<and> CfgBidirectional (convertProfileToIperfConfig (Some (ConvertProfileToProto (Some p))))"
    by blast
  have e: "\<exists>topo. GenerateFullMesh gen_ab_bidir = Inr topo
        \<and> map pair_ends (Pairs topo) = [(''a'', ''b''), (''b'', ''a'')]"
    by (rule exI [of _ topo]) (simp add: t op)
  from bd b have f: "''--bidir'' \<in> set (ToCommandArgs profile_bidir)"
    by blast
  show ?thesis
    by (intro conjI h1 h2 b e f)
qed

text \<open>\<open>TestMatrix.GenerateFullMesh\<close> of package models does add a reverse assignment
  for a bidirectional profile: with two nodes it returns four assignments.\<close>

theorem matrix_full_mesh_reverse_counterexample:
  "Bidirectional profile_bidir
   \<and> map_sum id (map assignment_ends) (TestMatrix_GenerateFullMesh matrix_ab_bidir) =
       Inr [(''a'', ''b''), (''b'', ''a''), (''b'', ''a''), (''a'', ''b'')]"
proof -
  have m: "MatrixNodes matrix_ab_bidir = add_nodes NewNodeRegistry [node_a, node_b]"
    by (simp add: matrix_ab_bidir_def NewTestMatrix_def)
  have gp: "GetPairProfile matrix_ab_bidir x y = Some profile_bidir" for x y
    by (simp add: matrix_ab_bidir_def NewTestMatrix_def GetPairProfile_def)
  have b: "Bidirectional profile_bidir"
    by (simp add: profile_bidir_def)
  have ids: "ID node_a = ''a''" "ID node_b = ''b''"
    by (simp_all add: node_a_def node_b_def)
  have "map_sum id (map assignment_ends) (TestMatrix_GenerateFullMesh matrix_ab_bidir) =
       Inr [(''a'', ''b''), (''b'', ''a''), (''b'', ''a''), (''a'', ''b'')]"
    unfolding TestMatrix_GenerateFullMesh_def m nodes_ab
    by (simp add: gp b ids Let_def assignment_ends_def)
  with b show ?thesis by simp
qed

section \<open>Properties of the per-node topologies\<close>

lemma filter_eq_distinct: "distinct xs \<Longrightarrow> d \<in> set xs \<Longrightarrow> filter (\<lambda>x. x = d) xs = [d]"
  by (induction xs) (auto simp: filter_empty_conv)

lemma source_nodes_ends:
  "source_nodes ps d = map fst (filter (\<lambda>e. snd e = d) (map pair_ends ps))"
  by (simp add: source_nodes_def pair_ends_def filter_map comp_def)

lemma inner_sources:
  assumes "distinct (map ID all)" "d \<in> ID ` set all"
  shows "map fst (filter (\<lambda>e. snd e = d)
           (map (\<lambda>d'. (ID s, ID d')) (filter (\<lambda>d'. ID s \<noteq> ID d') all))) =
         (if ID s \<noteq> d then [ID s] else [])"
proof -
  have "map ID (filter (\<lambda>d'. ID d' = d) all) = filter (\<lambda>x. x = d) (map ID all)"
    by (simp add: filter_map comp_def)
  also from assms have "\<dots> = [d]"
    by (simp add: filter_eq_distinct)
  finally have one: "length (filter (\<lambda>d'. ID d' = d) all) = 1"
    by (metis length_map length_Cons list.size(3) One_nat_def)
  have "map fst (filter (\<lambda>e. snd e = d)
           (map (\<lambda>d'. (ID s, ID d')) (filter (\<lambda>d'. ID s \<noteq> ID d') all))) =
        map (\<lambda>d'. ID s) (filter (\<lambda>d'. ID d' = d \<and> ID s \<noteq> ID d') all)"
    by (simp add: filter_map comp_def conj_commute)
  also have "\<dots> = (if ID s \<noteq> d then map (\<lambda>d'. ID s) (filter (\<lambda>d'. ID d' = d) all) else [])"
  proof (cases "ID s \<noteq> d")
    case True
    then have "filter (\<lambda>d'. ID d' = d \<and> ID s \<noteq> ID d') all = filter (\<lambda>d'. ID d' = d) all"
      by (intro filter_cong) auto
    with True show ?thesis by simp
  next
    case False
    then show ?thesis by (auto simp: filter_empty_conv)
  qed
  also have "\<dots> = (if ID s \<noteq> d then [ID s] else [])"
    using one by (cases "filter (\<lambda>d'. ID d' = d) all") auto
  finally show ?thesis .
qed

lemma sources_ordered_pairs_aux:
  assumes "distinct (map ID all)" "d \<in> ID ` set all"
  shows "map fst (filter (\<lambda>e. snd e = d)
           (concat (map (\<lambda>s. map (\<lambda>d'. (ID s, ID d')) (filter (\<lambda>d'. ID s \<noteq> ID d') all)) srcs))) =
         filter (\<lambda>s. s \<noteq> d) (map ID srcs)"
proof (induction srcs)
  case Nil
  then show ?case by simp
next
  case (Cons s srcs)
  from inner_sources [OF assms, of s] Cons.IH show ?case
    by simp
qed

lemma sources_ordered_pairs:
  "distinct (map ID ns) \<Longrightarrow> d \<in> ID ` set ns \<Longrightarrow>
   map fst (filter (\<lambda>e. snd e = d) (ordered_pairs ns)) = filter (\<lambda>s. s \<noteq> d) (map ID ns)"
  unfolding ordered_pairs_def by (rule sources_ordered_pairs_aux)

lemma source_to_port_other:
  "s \<notin> set srcs \<Longrightarrow> source_to_port srcs i ports m s = m s"
  by (induction srcs arbitrary: i m) auto

lemma source_to_port_nth:
  "distinct srcs \<Longrightarrow> j < length srcs \<Longrightarrow> i + j < length ports \<Longrightarrow>
   source_to_port srcs i ports m (srcs ! j) = Some (ports ! (i + j))"
proof (induction srcs arbitrary: i j m)
  case Nil
  then show ?case by simp
next
  case (Cons x srcs)
  show ?case
  proof (cases j)
    case 0
    with Cons.prems show ?thesis
      by (simp add: source_to_port_other)
  next
    case (Suc j')
    with Cons.prems Cons.IH [of j' "i + 1"] show ?thesis
      by simp
  qed
qed

lemma find_index_nth:
  "distinct xs \<Longrightarrow> j < length xs \<Longrightarrow> find_index xs (xs ! j) i = i + int j"
proof (induction xs arbitrary: i j)
  case Nil
  then show ?case by simp
next
  case (Cons x xs)
  show ?case
  proof (cases j)
    case 0
    then show ?thesis by simp
  next
    case (Suc j')
    with Cons.prems have "x \<noteq> xs ! j'" by auto
    with Suc Cons.prems Cons.IH [of j' "i + 1"] show ?thesis
      by simp
  qed
qed

lemma fill_ports_eq:
  "fill_ports n c = (map (\<lambda>i. c + of_nat i) [0..<n], c + of_nat n)"
proof (induction n arbitrary: c)
  case 0
  then show ?case by simp
next
  case (Suc n)
  have "[0..<Suc n] = 0 # map Suc [0..<n]"
    by (simp only: map_Suc_upt) (simp add: upt_conv_Cons del: upt_Suc)
  then have "map (\<lambda>i. c + of_nat i) [0..<Suc n] = c # map (\<lambda>i. c + 1 + of_nat i) [0..<n]"
    by (simp add: add.assoc del: upt_Suc)
  moreover have "c + 1 + of_nat n = c + of_nat (Suc n)"
    by (simp add: add.assoc)
  ultimately show ?case
    using Suc [of "c + 1"] by (simp del: upt_Suc of_nat_Suc)
qed

lemma distinct_consecutive_words:
  assumes "n \<le> 2 ^ 32"
  shows "distinct (map (\<lambda>i. (c::32 word) + of_nat i) [0..<n])"
proof -
  have "inj_on (\<lambda>i. c + (of_nat i :: 32 word)) {0..<n}"
  proof (rule inj_onI)
    fix x y
    assume x: "x \<in> {0..<n}" and y: "y \<in> {0..<n}" and "c + of_nat x = c + (of_nat y :: 32 word)"
    then have "(of_nat x :: 32 word) = of_nat y" by simp
    then have "unat (of_nat x :: 32 word) = unat (of_nat y :: 32 word)" by simp
    moreover from x assms have "x < 2 ^ 32" by simp
    moreover from y assms have "y < 2 ^ 32" by simp
    ultimately show "x = y"
      by (simp add: unat_of_nat take_bit_nat_eq_self)
  qed
  then show ?thesis
    by (simp add: distinct_map)
qed

lemma server_assign_ok:
  assumes "res k = Some t"
    and "\<forall>p \<in> set ps. ID (Destination p) = k \<longrightarrow> s2p (ID (Source p)) \<noteq> None"
  shows "server_assign k s2p ps res =
           Inr (res(k \<mapsto> t\<lparr>ServerAssignments := ServerAssignments t
                  @ map (\<lambda>p. pb_pair p (the (s2p (ID (Source p)))))
                      (filter (\<lambda>p. ID (Destination p) = k) ps)\<rparr>))"
  using assms
proof (induction ps arbitrary: res t)
  case Nil
  then show ?case by (simp add: fun_upd_idem)
next
  case (Cons p ps)
  show ?case
  proof (cases "ID (Destination p) = k")
    case False
    with Cons show ?thesis by simp
  next
    case True
    with Cons.prems obtain port where port: "s2p (ID (Source p)) = Some port"
      by auto
    let ?t' = "t\<lparr>ServerAssignments := ServerAssignments t @ [pb_pair p port]\<rparr>"
    have "server_assign k s2p ps (res(k \<mapsto> ?t')) =
           Inr ((res(k \<mapsto> ?t'))(k \<mapsto> ?t'\<lparr>ServerAssignments := ServerAssignments ?t'
                  @ map (\<lambda>p. pb_pair p (the (s2p (ID (Source p)))))
                      (filter (\<lambda>p. ID (Destination p) = k) ps)\<rparr>))"
      using Cons.prems by (intro Cons.IH) simp_all
    with True port Cons.prems(1) show ?thesis
      by (simp add: fun_upd_def fun_eq_iff)
  qed
qed

lemma client_assign_ok:
  assumes "res k = Some t" and "\<forall>p \<in> set ps. client_ok topo p"
  shows "client_assign topo k ps res =
           Inr (res(k \<mapsto> t\<lparr>ClientAssignments := ClientAssignments t
                  @ map (\<lambda>p. pb_pair p (client_port topo p)) ps\<rparr>))"
  using assms
proof (induction ps arbitrary: res t)
  case Nil
  then show ?case by (simp add: fun_upd_idem)
next
  case (Cons p ps)
  let ?t' = "t\<lparr>ClientAssignments := ClientAssignments t @ [pb_pair p (client_port topo p)]\<rparr>"
  from Cons.prems have ok: "client_ok topo p" by simp
  with Cons.prems(1) have step:
    "client_assign topo k (p # ps) res = client_assign topo k ps (res(k \<mapsto> ?t'))"
    by (simp add: Let_def client_ok_def client_port_def not_less [symmetric])
  have ih: "client_assign topo k ps (res(k \<mapsto> ?t')) =
           Inr ((res(k \<mapsto> ?t'))(k \<mapsto> ?t'\<lparr>ClientAssignments := ClientAssignments ?t'
                  @ map (\<lambda>p. pb_pair p (client_port topo p)) ps\<rparr>))"
    using Cons.prems by (intro Cons.IH) simp_all
  show ?case
    unfolding step ih by (simp add: fun_upd_def fun_eq_iff)
qed

lemma server_loop_ok:
  assumes "distinct (map fst entries)"
    and "\<forall>(k, ports) \<in> set entries. ports \<noteq> [] \<and> res k \<noteq> None
           \<and> (\<forall>p \<in> set P. ID (Destination p) = k \<longrightarrow>
                 source_to_port (source_nodes P k) 0 ports Map.empty (ID (Source p)) \<noteq> None)"
  shows "\<exists>res'. server_loop P entries res = Inr res'
           \<and> (\<forall>k. k \<notin> fst ` set entries \<longrightarrow> res' k = res k)
           \<and> (\<forall>(k, ports) \<in> set entries. \<exists>t. res k = Some t
                 \<and> res' k = Some (t\<lparr>ServerAssignments :=
                                       ServerAssignments t @ server_built P k ports\<rparr>))"
  using assms
proof (induction entries arbitrary: res)
  case Nil
  then show ?case by simp
next
  case (Cons e rest)
  obtain k ports where e: "e = (k, ports)" by (cases e)
  from Cons.prems e obtain t where t: "res k = Some t" and ne: "ports \<noteq> []"
    and dom: "\<forall>p \<in> set P. ID (Destination p) = k \<longrightarrow>
                 source_to_port (source_nodes P k) 0 ports Map.empty (ID (Source p)) \<noteq> None"
    by auto
  let ?res1 = "res(k \<mapsto> t\<lparr>ServerAssignments := ServerAssignments t @ server_built P k ports\<rparr>)"
  have sa: "server_assign k (source_to_port (source_nodes P k) 0 ports Map.empty) P res = Inr ?res1"
    unfolding server_built_def
    by (rule server_assign_ok [where res = res and k = k and t = t, OF t dom])
  from Cons.prems e have knot: "k \<notin> fst ` set rest" and drest: "distinct (map fst rest)"
    by auto
  have prem: "\<forall>(k', ports') \<in> set rest. ports' \<noteq> [] \<and> ?res1 k' \<noteq> None
           \<and> (\<forall>p \<in> set P. ID (Destination p) = k' \<longrightarrow>
                 source_to_port (source_nodes P k') 0 ports' Map.empty (ID (Source p)) \<noteq> None)"
    using Cons.prems(2) by auto
  from Cons.IH [OF drest prem] obtain res' where
    r1: "server_loop P rest ?res1 = Inr res'"
    and r2: "\<forall>k'. k' \<notin> fst ` set rest \<longrightarrow> res' k' = ?res1 k'"
    and r3: "\<forall>(k', ports') \<in> set rest. \<exists>t'. ?res1 k' = Some t'
                 \<and> res' k' = Some (t'\<lparr>ServerAssignments :=
                                       ServerAssignments t' @ server_built P k' ports'\<rparr>)"
    by blast
  have a: "server_loop P (e # rest) res = Inr res'"
    using e ne sa r1 by simp
  have b: "\<forall>k'. k' \<notin> fst ` set (e # rest) \<longrightarrow> res' k' = res k'"
    using r2 e by auto
  have c: "\<forall>(k', ports') \<in> set (e # rest). \<exists>t'. res k' = Some t'
                 \<and> res' k' = Some (t'\<lparr>ServerAssignments :=
                                       ServerAssignments t' @ server_built P k' ports'\<rparr>)"
  proof (intro ballI)
    fix x assume x: "x \<in> set (e # rest)"
    obtain k' ports' where x': "x = (k', ports')" by (cases x)
    show "case x of (k', ports') \<Rightarrow> \<exists>t'. res k' = Some t'
                 \<and> res' k' = Some (t'\<lparr>ServerAssignments :=
                                       ServerAssignments t' @ server_built P k' ports'\<rparr>)"
    proof (cases "x = e")
      case True
      with e x' have "k' = k" "ports' = ports" by simp_all
      with r2 knot t x' show ?thesis by simp
    next
      case False
      with x have xr: "x \<in> set rest" by simp
      with knot x' have "k' \<noteq> k" by force
      with r3 xr x' show ?thesis by fastforce
    qed
  qed
  from a b c show ?case by blast
qed

lemma client_loop_ok:
  assumes "distinct (map fst entries)"
    and "\<forall>(k, ps) \<in> set entries. res k \<noteq> None \<and> (\<forall>p \<in> set ps. client_ok topo p)"
  shows "\<exists>res'. client_loop topo entries res = Inr res'
           \<and> (\<forall>k. k \<notin> fst ` set entries \<longrightarrow> res' k = res k)
           \<and> (\<forall>(k, ps) \<in> set entries. \<exists>t. res k = Some t
                 \<and> res' k = Some (t\<lparr>ClientAssignments := ClientAssignments t
                                       @ map (\<lambda>p. pb_pair p (client_port topo p)) ps\<rparr>))"
  using assms
proof (induction entries arbitrary: res)
  case Nil
  then show ?case by simp
next
  case (Cons e rest)
  obtain k ps where e: "e = (k, ps)" by (cases e)
  from Cons.prems e obtain t where t: "res k = Some t"
    and ok: "\<forall>p \<in> set ps. client_ok topo p"
    by auto
  let ?res1 = "res(k \<mapsto> t\<lparr>ClientAssignments := ClientAssignments t
                                       @ map (\<lambda>p. pb_pair p (client_port topo p)) ps\<rparr>)"
  have ca: "client_assign topo k ps res = Inr ?res1"
    by (rule client_assign_ok [where res = res and k = k and t = t, OF t ok])
  from Cons.prems e have knot: "k \<notin> fst ` set rest" and drest: "distinct (map fst rest)"
    by auto
  have prem: "\<forall>(k', ps') \<in> set rest. ?res1 k' \<noteq> None \<and> (\<forall>p \<in> set ps'. client_ok topo p)"
    using Cons.prems(2) by auto
  from Cons.IH [OF drest prem] obtain res' where
    r1: "client_loop topo rest ?res1 = Inr res'"
    and r2: "\<forall>k'. k' \<notin> fst ` set rest \<longrightarrow> res' k' = ?res1 k'"
    and r3: "\<forall>(k', ps') \<in> set rest. \<exists>t'. ?res1 k' = Some t'
                 \<and> res' k' = Some (t'\<lparr>ClientAssignments := ClientAssignments t'
                                       @ map (\<lambda>p. pb_pair p (client_port topo p)) ps'\<rparr>)"
    by blast
  have a: "client_loop topo (e # rest) res = Inr res'"
    using e ca r1 by simp
  have b: "\<forall>k'. k' \<notin> fst ` set (e # rest) \<longrightarrow> res' k' = res k'"
    using r2 e by auto
  have c: "\<forall>(k', ps') \<in> set (e # rest). \<exists>t'. res k' = Some t'
                 \<and> res' k' = Some (t'\<lparr>ClientAssignments := ClientAssignments t'
                                       @ map (\<lambda>p. pb_pair p (client_port topo p)) ps'\<rparr>)"
  proof (intro ballI)
    fix x assume x: "x \<in> set (e # rest)"
    obtain k' ps' where x': "x = (k', ps')" by (cases x)
    show "case x of (k', ps') \<Rightarrow> \<exists>t'. res k' = Some t'
                 \<and> res' k' = Some (t'\<lparr>ClientAssignments := ClientAssignments t'
                                       @ map (\<lambda>p. pb_pair p (client_port topo p)) ps'\<rparr>)"
    proof (cases "x = e")
      case True
      with e x' have "k' = k" "ps' = ps" by simp_all
      with r2 knot t x' show ?thesis by simp
    next
      case False
      with x have xr: "x \<in> set rest" by simp
      with knot x' have "k' \<noteq> k" by force
      with r3 xr x' show ?thesis by fastforce
    qed
  qed
  from a b c show ?case by blast
qed

lemma lookup_slice_update:
  "lookup_slice (AList.update k v al) k' = (if k' = k then v else lookup_slice al k')"
  by (simp add: lookup_slice_def update_conv')

lemma mesh_inner_ct: "ct_inv (fst st) \<Longrightarrow> ct_inv (fst (mesh_inner g s ds st))"
proof (induction ds arbitrary: st)
  case Nil
  then show ?case by simp
next
  case (Cons d ds)
  show ?case
  proof (cases "ID s = ID d")
    case True
    with Cons show ?thesis by simp
  next
    case False
    let ?pair = "\<lparr>TestID = ''test-'' @ show_int (snd st + 1) @ ''-'' @ ID s @ ''-to-'' @ ID d,
                   Source = s, Destination = d, Profile = getProfileForPair g (ID s) (ID d)\<rparr>"
    let ?t = "(fst st)\<lparr>Pairs := Pairs (fst st) @ [?pair],
                 ClientTests := AList.update (ID s)
                     (lookup_slice (ClientTests (fst st)) (ID s) @ [?pair])
                     (ClientTests (fst st))\<rparr>"
    from Cons.prems have "ct_inv ?t"
      by (auto simp: ct_inv_def distinct_update lookup_slice_update pair_ends_def)
    then have "ct_inv (fst (mesh_inner g s ds (?t, snd st + 1)))"
      by (intro Cons.IH) simp
    with False show ?thesis
      by (simp add: Let_def)
  qed
qed

lemma mesh_outer_ct: "ct_inv (fst st) \<Longrightarrow> ct_inv (fst (mesh_outer g srcs all st))"
proof (induction srcs arbitrary: st)
  case Nil
  then show ?case by simp
next
  case (Cons s srcs)
  from Cons.prems have "ct_inv (fst (mesh_inner g s all st))"
    by (rule mesh_inner_ct)
  from Cons.IH [OF this] show ?case by simp
qed

lemma mesh_inner_keys:
  "fst ` set (ClientTests (fst (mesh_inner g s ds st)))
     \<subseteq> fst ` set (ClientTests (fst st)) \<union> {ID s}"
proof (induction ds arbitrary: st)
  case Nil
  then show ?case by auto
next
  case (Cons d ds)
  show ?case
  proof (cases "ID s = ID d")
    case True
    with Cons.IH [of st] show ?thesis by simp
  next
    case False
    let ?pair = "\<lparr>TestID = ''test-'' @ show_int (snd st + 1) @ ''-'' @ ID s @ ''-to-'' @ ID d,
                   Source = s, Destination = d, Profile = getProfileForPair g (ID s) (ID d)\<rparr>"
    let ?t = "(fst st)\<lparr>Pairs := Pairs (fst st) @ [?pair],
                 ClientTests := AList.update (ID s)
                     (lookup_slice (ClientTests (fst st)) (ID s) @ [?pair])
                     (ClientTests (fst st))\<rparr>"
    have "fst ` set (ClientTests (fst (mesh_inner g s ds (?t, snd st + 1))))
            \<subseteq> fst ` set (ClientTests (fst (?t, snd st + 1))) \<union> {ID s}"
      by (rule Cons.IH)
    also have "\<dots> \<subseteq> fst ` set (ClientTests (fst st)) \<union> {ID s}"
      by (auto simp: dom_update)
    finally show ?thesis
      using False by (simp add: Let_def)
  qed
qed

lemma mesh_outer_keys:
  "fst ` set (ClientTests (fst (mesh_outer g srcs all st)))
     \<subseteq> fst ` set (ClientTests (fst st)) \<union> ID ` set srcs"
proof (induction srcs arbitrary: st)
  case Nil
  then show ?case by auto
next
  case (Cons s srcs)
  from Cons.IH [of "mesh_inner g s all st"] mesh_inner_keys [of g s all st]
  show ?case by auto
qed

lemma assign_ports_props:
  assumes "distinct (map fst sp)"
    and "\<forall>k ports. map_of sp k = Some ports \<longrightarrow>
           length ports = n \<and> (n \<le> 2 ^ 32 \<longrightarrow> distinct ports)"
  shows "distinct (map fst (fst (assign_ports ns n (sp, c))))
       \<and> fst ` set (fst (assign_ports ns n (sp, c))) = fst ` set sp \<union> ID ` set ns
       \<and> (\<forall>k ports. map_of (fst (assign_ports ns n (sp, c))) k = Some ports \<longrightarrow>
             length ports = n \<and> (n \<le> 2 ^ 32 \<longrightarrow> distinct ports))"
  using assms
proof (induction ns arbitrary: sp c)
  case Nil
  then show ?case by simp
next
  case (Cons node ns)
  let ?ports = "map (\<lambda>i. c + of_nat i) [0..<n]"
  let ?sp = "AList.update (ID node) ?ports sp"
  have step: "assign_ports (node # ns) n (sp, c) = assign_ports ns n (?sp, c + of_nat n)"
    by (simp add: fill_ports_eq)
  have d: "distinct (map fst ?sp)"
    using Cons.prems(1) by (simp add: distinct_update)
  have g: "\<forall>k ports. map_of ?sp k = Some ports \<longrightarrow>
           length ports = n \<and> (n \<le> 2 ^ 32 \<longrightarrow> distinct ports)"
    using Cons.prems(2) by (auto simp: update_conv' distinct_consecutive_words)
  from Cons.IH [OF d g, of "c + of_nat n"] show ?case
    unfolding step by (auto simp: dom_update)
qed

lemma length_filter_others:
  "distinct xs \<Longrightarrow> d \<in> set xs \<Longrightarrow> length (filter (\<lambda>s. s \<noteq> d) xs) = length xs - 1"
proof -
  assume a: "distinct xs" "d \<in> set xs"
  have "length (filter (\<lambda>s. s = d) xs) + length (filter (\<lambda>s. \<not> s = d) xs) = length xs"
    by (rule sum_length_filter_compl)
  with filter_eq_distinct [OF a] show ?thesis by simp
qed

lemma source_to_port_defined:
  assumes "distinct srcs" "s \<in> set srcs" "length srcs \<le> length ports"
  shows "source_to_port srcs 0 ports m s \<noteq> None"
proof -
  from assms(2) obtain j where j: "j < length srcs" "srcs ! j = s"
    by (auto simp: in_set_conv_nth)
  with assms source_to_port_nth [of srcs j 0 ports m] show ?thesis by simp
qed

lemma server_built_sources: "map SourceId (server_built P k ports) = source_nodes P k"
  by (simp add: server_built_def source_nodes_def pb_pair_def comp_def)

lemma server_built_dests:
  "\<forall>a \<in> set (server_built P k ports). DestinationId a = k"
  by (auto simp: server_built_def pb_pair_def)

lemma server_built_ports:
  assumes "distinct (source_nodes P k)" "length (source_nodes P k) = length ports"
  shows "map DestinationPort (server_built P k ports) = ports"
proof -
  let ?s2p = "source_to_port (source_nodes P k) 0 ports Map.empty"
  have "map DestinationPort (server_built P k ports) =
          map (\<lambda>s. the (?s2p s)) (source_nodes P k)"
    by (simp add: server_built_def source_nodes_def pb_pair_def comp_def)
  also have "\<dots> = ports"
  proof (rule nth_equalityI)
    show "length (map (\<lambda>s. the (?s2p s)) (source_nodes P k)) = length ports"
      using assms(2) by simp
  next
    fix i assume "i < length (map (\<lambda>s. the (?s2p s)) (source_nodes P k))"
    then have i: "i < length (source_nodes P k)" by simp
    with assms source_to_port_nth [of "source_nodes P k" i 0 ports Map.empty]
    show "map (\<lambda>s. the (?s2p s)) (source_nodes P k) ! i = ports ! i"
      by simp
  qed
  finally show ?thesis .
qed

lemma pair_node_ids_ends:
  "pair_node_ids P = fst ` set (map pair_ends P) \<union> snd ` set (map pair_ends P)"
  by (auto simp: pair_node_ids_def pair_ends_def image_iff)

lemma ids_in_ordered_pairs:
  assumes "distinct (map ID ns)" "2 \<le> length ns" "k \<in> ID ` set ns"
  shows "k \<in> fst ` set (ordered_pairs ns)"
proof -
  from assms have "length (filter (\<lambda>s. s \<noteq> k) (map ID ns)) = length (map ID ns) - 1"
    by (intro length_filter_others) auto
  with assms(2) have "0 < length (filter (\<lambda>s. s \<noteq> k) (map ID ns))"
    by (simp only: length_map)
  then have "filter (\<lambda>s. s \<noteq> k) (map ID ns) \<noteq> []"
    using length_greater_0_conv by blast
  then obtain k' where "k' \<in> set (map ID ns)" "k' \<noteq> k"
    by (auto simp: filter_empty_conv)
  with assms(3) have "(k, k') \<in> set (ordered_pairs ns)"
    by (auto simp: set_ordered_pairs)
  then show ?thesis by force
qed

lemma find_index_member:
  assumes "distinct xs" "s \<in> set xs"
  shows "\<exists>j < length xs. xs ! j = s \<and> find_index xs s 0 = int j"
proof -
  from assms(2) obtain j where j: "j < length xs" "xs ! j = s"
    by (auto simp: in_set_conv_nth)
  with find_index_nth [OF assms(1) j(1), of 0] show ?thesis by auto
qed

lemma mesh_inner_server_ports:
  "ServerPorts (fst (mesh_inner g s ds st)) = ServerPorts (fst st)"
  by (induction ds arbitrary: st) (simp_all add: Let_def)

lemma mesh_outer_server_ports:
  "ServerPorts (fst (mesh_outer g srcs all st)) = ServerPorts (fst st)"
  by (induction srcs arbitrary: st) (simp_all add: mesh_inner_server_ports)

lemma lookup_slice_entry:
  "distinct (map fst al) \<Longrightarrow> (k, v) \<in> set al \<Longrightarrow> lookup_slice al k = v"
  by (simp add: lookup_slice_def)

lemma mesh_node_topologies:
  assumes dn: "distinct (map ID ns)" and n2: "2 \<le> length ns"
    and gn: "GetAllNodes (gen_nodes g) = ns"
  shows "\<exists>topo res. GenerateFullMesh g = Inr topo \<and> GenerateNodeTopologies topo = Inr res
     \<and> (\<forall>spo cto. iteration_order (ServerPorts topo) spo \<longrightarrow>
            iteration_order (ClientTests topo) cto \<longrightarrow>
            GenerateNodeTopologies_in_order topo spo cto = Inr res)
     \<and> map pair_ends (Pairs topo) = ordered_pairs ns
     \<and> ct_inv topo
     \<and> distinct (map fst (ServerPorts topo))
     \<and> (\<forall>k \<in> ID ` set ns.
          length (lookup_slice (ServerPorts topo) k) = length ns - 1
          \<and> (length ns - 1 \<le> 2 ^ 32 \<longrightarrow> distinct (lookup_slice (ServerPorts topo) k))
          \<and> source_nodes (Pairs topo) k = filter (\<lambda>s. s \<noteq> k) (map ID ns)
          \<and> server_assignments res k =
              server_built (Pairs topo) k (lookup_slice (ServerPorts topo) k)
          \<and> client_assignments res k =
              map (\<lambda>p. pb_pair p (client_port topo p)) (lookup_slice (ClientTests topo) k))"
proof -
  define T where "T = fst (mesh_outer g ns ns (\<lparr>Pairs = [], ServerPorts = [], ClientTests = []\<rparr>, 0))"
  define SP where "SP = fst (assign_ports ns (length ns - 1) ([], 5201))"
  define topo where "topo = T\<lparr>ServerPorts := SP\<rparr>"
  define res0 where "res0 = (\<lambda>nodeID. if nodeID \<in> pair_node_ids (Pairs topo)
                               then Some \<lparr>ServerAssignments = [], ClientAssignments = []\<rparr>
                               else None)"
  have spT: "ServerPorts T = []"
    by (simp add: T_def mesh_outer_server_ports)
  have gfm: "GenerateFullMesh g = Inr topo"
    using n2 gn spT by (simp add: GenerateFullMesh_def Let_def T_def [symmetric] SP_def topo_def)
  have tf: "Pairs topo = Pairs T" "ClientTests topo = ClientTests T" "ServerPorts topo = SP"
    by (simp_all add: topo_def)
  have E: "map pair_ends (Pairs topo) = ordered_pairs ns"
    by (simp add: tf T_def mesh_outer_pairs ordered_pairs_def)
  have "ct_inv T"
    unfolding T_def by (rule mesh_outer_ct) (simp add: ct_inv_def lookup_slice_def)
  then have ct: "ct_inv topo"
    by (simp add: ct_inv_def tf)
  have keys: "fst ` set (ClientTests topo) \<subseteq> ID ` set ns"
    using mesh_outer_keys [of g ns ns "(\<lparr>Pairs = [], ServerPorts = [], ClientTests = []\<rparr>, 0)"]
    by (simp add: tf T_def)
  have sp: "distinct (map fst SP)" "fst ` set SP = ID ` set ns"
    "\<forall>k ports. map_of SP k = Some ports \<longrightarrow>
       length ports = length ns - 1 \<and> (length ns - 1 \<le> 2 ^ 32 \<longrightarrow> distinct ports)"
    using assign_ports_props [of "[]" "length ns - 1" ns 5201] by (simp_all add: SP_def)
  have ent: "length ports = length ns - 1 \<and> (length ns - 1 \<le> 2 ^ 32 \<longrightarrow> distinct ports)
             \<and> lookup_slice SP k = ports \<and> k \<in> ID ` set ns"
    if "(k, ports) \<in> set SP" for k ports
  proof -
    from that sp(1) have "map_of SP k = Some ports" by simp
    with sp(3) that sp(2) show ?thesis
      by (force simp: lookup_slice_def)
  qed
  have lk: "(k, lookup_slice SP k) \<in> set SP" if "k \<in> ID ` set ns" for k
  proof -
    from that sp(2) obtain ports where "(k, ports) \<in> set SP" by force
    with ent [OF this] show ?thesis by simp
  qed
  have ids: "ID ` set ns \<subseteq> pair_node_ids (Pairs topo)"
    using ids_in_ordered_pairs [OF dn n2] by (auto simp: pair_node_ids_ends E)
  have src: "source_nodes (Pairs topo) k = filter (\<lambda>s. s \<noteq> k) (map ID ns)"
    if "k \<in> ID ` set ns" for k
    using that dn by (simp add: source_nodes_ends E sources_ordered_pairs)
  have srcd: "distinct (source_nodes (Pairs topo) k)"
    and srcl: "length (source_nodes (Pairs topo) k) = length ns - 1"
    if "k \<in> ID ` set ns" for k
    using that dn src [OF that] length_filter_others [of "map ID ns" k] by simp_all
  have pe: "ID (Source p) \<in> ID ` set ns \<and> ID (Destination p) \<in> ID ` set ns
            \<and> ID (Source p) \<noteq> ID (Destination p)"
    if "p \<in> set (Pairs topo)" for p
  proof -
    from that have "pair_ends p \<in> set (map pair_ends (Pairs topo))" by simp
    then show ?thesis
      unfolding E by (simp add: set_ordered_pairs pair_ends_def)
  qed
  from ct have dct: "distinct (map fst (ClientTests topo))"
    by (simp add: ct_inv_def)
  have idsub: "pair_node_ids (Pairs topo) \<subseteq> ID ` set ns"
    by (auto simp: pair_node_ids_ends E set_ordered_pairs)
  define resF where "resF = (\<lambda>k. if k \<in> ID ` set ns
      then Some \<lparr>ServerAssignments = server_built (Pairs topo) k (lookup_slice SP k),
                 ClientAssignments = map (\<lambda>p. pb_pair p (client_port topo p))
                                       (lookup_slice (ClientTests topo) k)\<rparr>
      else None)"
  have run: "GenerateNodeTopologies_in_order topo spo cto = Inr resF"
    if so: "iteration_order SP spo" and co: "iteration_order (ClientTests topo) cto"
    for spo cto
  proof -
    from so have sset: "set spo = set SP" and sd: "distinct (map fst spo)"
      by (simp_all add: iteration_order_def)
    from co have cset: "set cto = set (ClientTests topo)" and cd: "distinct (map fst cto)"
      by (simp_all add: iteration_order_def)
    have c1: "\<forall>(k, ports) \<in> set spo. ports \<noteq> [] \<and> res0 k \<noteq> None
             \<and> (\<forall>p \<in> set (Pairs topo). ID (Destination p) = k \<longrightarrow>
                   source_to_port (source_nodes (Pairs topo) k) 0 ports Map.empty (ID (Source p))
                     \<noteq> None)"
    proof (intro ballI)
      fix x assume x0: "x \<in> set spo"
      with sset have x: "x \<in> set SP" by simp
      obtain k ports where x': "x = (k, ports)" by (cases x)
      from ent [of k ports] x x' have len: "length ports = length ns - 1" and k: "k \<in> ID ` set ns"
        by simp_all
      from len n2 have ne: "ports \<noteq> []" by auto
      from k ids have r: "res0 k \<noteq> None" by (auto simp: res0_def)
      have "source_to_port (source_nodes (Pairs topo) k) 0 ports Map.empty (ID (Source p)) \<noteq> None"
        if "p \<in> set (Pairs topo)" "ID (Destination p) = k" for p
      proof (rule source_to_port_defined)
        show "distinct (source_nodes (Pairs topo) k)" by (rule srcd [OF k])
        show "ID (Source p) \<in> set (source_nodes (Pairs topo) k)"
          using that by (auto simp: source_nodes_def)
        show "length (source_nodes (Pairs topo) k) \<le> length ports"
          using srcl [OF k] len by simp
      qed
      with ne r x' show "case x of (k, ports) \<Rightarrow> ports \<noteq> [] \<and> res0 k \<noteq> None
             \<and> (\<forall>p \<in> set (Pairs topo). ID (Destination p) = k \<longrightarrow>
                   source_to_port (source_nodes (Pairs topo) k) 0 ports Map.empty (ID (Source p))
                     \<noteq> None)"
        by simp
    qed
    from server_loop_ok [OF sd c1] obtain res1 where
      s1: "server_loop (Pairs topo) spo res0 = Inr res1"
      and s2: "\<forall>k. k \<notin> fst ` set spo \<longrightarrow> res1 k = res0 k"
      and s3: "\<forall>(k, ports) \<in> set spo. \<exists>t. res0 k = Some t
                   \<and> res1 k = Some (t\<lparr>ServerAssignments :=
                         ServerAssignments t @ server_built (Pairs topo) k ports\<rparr>)"
      by blast
    have r1: "res1 k = Some \<lparr>ServerAssignments = server_built (Pairs topo) k (lookup_slice SP k),
                             ClientAssignments = []\<rparr>"
      if "k \<in> ID ` set ns" for k
    proof -
      from s3 lk [OF that] sset obtain t where "res0 k = Some t"
        "res1 k = Some (t\<lparr>ServerAssignments :=
            ServerAssignments t @ server_built (Pairs topo) k (lookup_slice SP k)\<rparr>)"
        by fastforce
      then show ?thesis
        by (auto simp: res0_def split: if_splits)
    qed
    have cok: "client_ok topo p" if "p \<in> set (Pairs topo)" for p
    proof -
      from pe [OF that] have a: "ID (Source p) \<in> ID ` set ns" and b: "ID (Destination p) \<in> ID ` set ns"
        and c: "ID (Source p) \<noteq> ID (Destination p)"
        by simp_all
      from a c have "ID (Source p) \<in> set (source_nodes (Pairs topo) (ID (Destination p)))"
        by (simp add: src [OF b])
      from find_index_member [OF srcd [OF b] this] obtain j where
        j: "j < length (source_nodes (Pairs topo) (ID (Destination p)))"
        "find_index (source_nodes (Pairs topo) (ID (Destination p))) (ID (Source p)) 0 = int j"
        by blast
      from ent [OF lk [OF b]] have "length (lookup_slice SP (ID (Destination p))) = length ns - 1"
        by simp
      with j srcl [OF b] n2 show ?thesis
        by (auto simp: client_ok_def tf)
    qed
    have c2: "\<forall>(k, ps) \<in> set cto. res1 k \<noteq> None \<and> (\<forall>p \<in> set ps. client_ok topo p)"
    proof (intro ballI)
      fix x assume x0: "x \<in> set cto"
      with cset have x: "x \<in> set (ClientTests topo)" by simp
      obtain k ps where x': "x = (k, ps)" by (cases x)
      from x x' keys have k: "k \<in> ID ` set ns" by force
      from ct x x' have "lookup_slice (ClientTests topo) k = ps"
        by (simp add: ct_inv_def lookup_slice_entry)
      with ct have "map pair_ends ps = filter (\<lambda>e. fst e = k) (map pair_ends (Pairs topo))"
        by (auto simp: ct_inv_def)
      then have sub: "set (map pair_ends ps) \<subseteq> set (ordered_pairs ns)"
        unfolding E by auto
      have "client_ok topo p" if p: "p \<in> set ps" for p
      proof -
        from p sub have e: "pair_ends p \<in> set (ordered_pairs ns)" by auto
        then have a: "ID (Source p) \<in> ID ` set ns" and b: "ID (Destination p) \<in> ID ` set ns"
          and c: "ID (Source p) \<noteq> ID (Destination p)"
          by (simp_all add: set_ordered_pairs pair_ends_def)
        from a c have "ID (Source p) \<in> set (source_nodes (Pairs topo) (ID (Destination p)))"
          by (simp add: src [OF b])
        from find_index_member [OF srcd [OF b] this] obtain j where
          j: "j < length (source_nodes (Pairs topo) (ID (Destination p)))"
          "find_index (source_nodes (Pairs topo) (ID (Destination p))) (ID (Source p)) 0 = int j"
          by blast
        from ent [OF lk [OF b]] have "length (lookup_slice SP (ID (Destination p))) = length ns - 1"
          by simp
        with j srcl [OF b] n2 show ?thesis
          by (auto simp: client_ok_def tf)
      qed
      with r1 [OF k] x' show "case x of (k, ps) \<Rightarrow> res1 k \<noteq> None \<and> (\<forall>p \<in> set ps. client_ok topo p)"
        by simp
    qed
    from client_loop_ok [OF cd c2] obtain res2 where
      t1: "client_loop topo cto res1 = Inr res2"
      and t2: "\<forall>k. k \<notin> fst ` set cto \<longrightarrow> res2 k = res1 k"
      and t3: "\<forall>(k, ps) \<in> set cto. \<exists>t. res1 k = Some t
                   \<and> res2 k = Some (t\<lparr>ClientAssignments := ClientAssignments t
                                         @ map (\<lambda>p. pb_pair p (client_port topo p)) ps\<rparr>)"
      by blast
    have gnt: "GenerateNodeTopologies_in_order topo spo cto = Inr res2"
      by (simp only: GenerateNodeTopologies_in_order_def Let_def res0_def [symmetric] s1 sum.case t1)
    have r2: "res2 k = Some \<lparr>ServerAssignments = server_built (Pairs topo) k (lookup_slice SP k),
                             ClientAssignments = map (\<lambda>p. pb_pair p (client_port topo p))
                                                   (lookup_slice (ClientTests topo) k)\<rparr>"
      if k: "k \<in> ID ` set ns" for k
    proof (cases "k \<in> fst ` set cto")
      case True
      with cset obtain ps where ps0: "(k, ps) \<in> set cto" and ps: "(k, ps) \<in> set (ClientTests topo)"
        by force
      with dct have l: "lookup_slice (ClientTests topo) k = ps"
        by (simp add: lookup_slice_entry)
      from t3 ps0 obtain t where "res1 k = Some t"
        "res2 k = Some (t\<lparr>ClientAssignments := ClientAssignments t
                                         @ map (\<lambda>p. pb_pair p (client_port topo p)) ps\<rparr>)"
        by fastforce
      with r1 [OF k] l show ?thesis by auto
    next
      case False
      with cset have "map_of (ClientTests topo) k = None"
        by (simp add: map_of_eq_None_iff)
      then have "lookup_slice (ClientTests topo) k = []"
        by (simp add: lookup_slice_def)
      with t2 False r1 [OF k] show ?thesis by simp
    qed
    have r1n: "res1 k = None" if "k \<notin> ID ` set ns" for k
    proof -
      from that sp(2) sset have "k \<notin> fst ` set spo" by simp
      with s2 have "res1 k = res0 k" by simp
      with that idsub show ?thesis by (auto simp: res0_def)
    qed
    have r2n: "res2 k = None" if "k \<notin> ID ` set ns" for k
    proof -
      from that keys cset have "k \<notin> fst ` set cto" by auto
      with t2 r1n [OF that] show ?thesis by simp
    qed
    have "res2 = resF"
      by (rule ext) (simp add: resF_def r2 r2n)
    with gnt show ?thesis by simp
  qed
  have gnt: "GenerateNodeTopologies topo = Inr resF"
    unfolding GenerateNodeTopologies_def tf(3)
    by (rule run) (simp_all add: iteration_order_def sp(1) dct)
  have orders: "\<forall>spo cto. iteration_order (ServerPorts topo) spo \<longrightarrow>
            iteration_order (ClientTests topo) cto \<longrightarrow>
            GenerateNodeTopologies_in_order topo spo cto = Inr resF"
    unfolding tf(3) by (intro allI impI run)
  have r2: "resF k = Some \<lparr>ServerAssignments = server_built (Pairs topo) k (lookup_slice SP k),
                           ClientAssignments = map (\<lambda>p. pb_pair p (client_port topo p))
                                                 (lookup_slice (ClientTests topo) k)\<rparr>"
    if k: "k \<in> ID ` set ns" for k
    using k by (simp add: resF_def)
  have final: "\<forall>k \<in> ID ` set ns.
          length (lookup_slice (ServerPorts topo) k) = length ns - 1
          \<and> (length ns - 1 \<le> 2 ^ 32 \<longrightarrow> distinct (lookup_slice (ServerPorts topo) k))
          \<and> source_nodes (Pairs topo) k = filter (\<lambda>s. s \<noteq> k) (map ID ns)
          \<and> server_assignments resF k =
              server_built (Pairs topo) k (lookup_slice (ServerPorts topo) k)
          \<and> client_assignments resF k =
              map (\<lambda>p. pb_pair p (client_port topo p)) (lookup_slice (ClientTests topo) k)"
  proof
    fix k assume k: "k \<in> ID ` set ns"
    from ent [OF lk [OF k]] r2 [OF k] src [OF k]
    show "length (lookup_slice (ServerPorts topo) k) = length ns - 1
          \<and> (length ns - 1 \<le> 2 ^ 32 \<longrightarrow> distinct (lookup_slice (ServerPorts topo) k))
          \<and> source_nodes (Pairs topo) k = filter (\<lambda>s. s \<noteq> k) (map ID ns)
          \<and> server_assignments resF k =
              server_built (Pairs topo) k (lookup_slice (ServerPorts topo) k)
          \<and> client_assignments resF k =
              map (\<lambda>p. pb_pair p (client_port topo p)) (lookup_slice (ClientTests topo) k)"
      by (simp add: tf server_assignments_def client_assignments_def)
  qed
  from sp(1) have dsp: "distinct (map fst (ServerPorts topo))"
    by (simp add: tf)
  show ?thesis
    by (intro exI [of _ topo] exI [of _ resF] conjI gfm gnt orders E ct dsp final)
qed

lemma pb_pair_fields:
  "SourceId (pb_pair p port) = ID (Source p)"
  "DestinationId (pb_pair p port) = ID (Destination p)"
  "DestinationPort (pb_pair p port) = port"
  by (simp_all add: pb_pair_def)

text \<open>
  C1. For every node registry with \<open>N \<ge> 2\<close> nodes, \<open>GenerateFullMesh\<close> and
  \<open>GenerateNodeTopologies\<close> succeed, with the same result in whatever order the two
  maps are iterated; each destination gets a server-port list of
  length \<open>N - 1\<close>; its server assignments list its sources in registry order, the
  \<open>j\<close>-th with the \<open>j\<close>-th port; and for every ordered pair \<open>(s, d)\<close> the one client
  assignment of \<open>s\<close> for \<open>d\<close> carries the port at \<open>s\<close>'s position in \<open>d\<close>'s
  server assignments. The ports of one destination are pairwise distinct (the
  \<open>int32\<close> counter does not come round within \<open>N - 1 \<le> 2\<^sup>3\<^sup>2\<close> steps).
\<close>

theorem full_mesh_port_consistency:
  assumes reg: "gen_nodes g = add_nodes NewNodeRegistry input"
    and n2: "2 \<le> length (GetAllNodes (gen_nodes g))"
  shows "\<exists>topo res. GenerateFullMesh g = Inr topo \<and> GenerateNodeTopologies topo = Inr res
     \<and> (\<forall>spo cto. iteration_order (ServerPorts topo) spo \<longrightarrow>
            iteration_order (ClientTests topo) cto \<longrightarrow>
            GenerateNodeTopologies_in_order topo spo cto = Inr res)
     \<and> (\<forall>d \<in> ID ` set (GetAllNodes (gen_nodes g)).
           length (lookup_slice (ServerPorts topo) d) = length (GetAllNodes (gen_nodes g)) - 1
         \<and> map SourceId (server_assignments res d) =
             filter (\<lambda>s. s \<noteq> d) (map ID (GetAllNodes (gen_nodes g)))
         \<and> map DestinationPort (server_assignments res d) = lookup_slice (ServerPorts topo) d
         \<and> (length (GetAllNodes (gen_nodes g)) - 1 \<le> 2 ^ 32 \<longrightarrow>
               distinct (map DestinationPort (server_assignments res d))))
     \<and> (\<forall>s \<in> ID ` set (GetAllNodes (gen_nodes g)).
         \<forall>d \<in> ID ` set (GetAllNodes (gen_nodes g)). s \<noteq> d \<longrightarrow>
           (\<exists>j < length (GetAllNodes (gen_nodes g)) - 1.
               SourceId (server_assignments res d ! j) = s
             \<and> DestinationId (server_assignments res d ! j) = d
             \<and> DestinationPort (server_assignments res d ! j) =
                 lookup_slice (ServerPorts topo) d ! j
             \<and> map DestinationPort
                 (filter (\<lambda>c. DestinationId c = d) (client_assignments res s)) =
                 [DestinationPort (server_assignments res d ! j)]))"
proof -
  define ns where "ns = GetAllNodes (gen_nodes g)"
  from reg have dn: "distinct (map ID ns)"
    by (simp add: ns_def registry_distinct)
  from n2 have n2': "2 \<le> length ns" by (simp add: ns_def)
  from mesh_node_topologies [OF dn n2' ns_def [symmetric]] obtain topo res where
    gfm: "GenerateFullMesh g = Inr topo" and gnt: "GenerateNodeTopologies topo = Inr res"
    and ord: "\<forall>spo cto. iteration_order (ServerPorts topo) spo \<longrightarrow>
            iteration_order (ClientTests topo) cto \<longrightarrow>
            GenerateNodeTopologies_in_order topo spo cto = Inr res"
    and E: "map pair_ends (Pairs topo) = ordered_pairs ns" and ct: "ct_inv topo"
    and per: "\<forall>k \<in> ID ` set ns.
          length (lookup_slice (ServerPorts topo) k) = length ns - 1
          \<and> (length ns - 1 \<le> 2 ^ 32 \<longrightarrow> distinct (lookup_slice (ServerPorts topo) k))
          \<and> source_nodes (Pairs topo) k = filter (\<lambda>s. s \<noteq> k) (map ID ns)
          \<and> server_assignments res k =
              server_built (Pairs topo) k (lookup_slice (ServerPorts topo) k)
          \<and> client_assignments res k =
              map (\<lambda>p. pb_pair p (client_port topo p)) (lookup_slice (ClientTests topo) k)"
    by (elim exE conjE)
  have srv: "length (lookup_slice (ServerPorts topo) d) = length ns - 1
         \<and> map SourceId (server_assignments res d) = filter (\<lambda>s. s \<noteq> d) (map ID ns)
         \<and> map DestinationPort (server_assignments res d) = lookup_slice (ServerPorts topo) d
         \<and> (length ns - 1 \<le> 2 ^ 32 \<longrightarrow> distinct (map DestinationPort (server_assignments res d)))
         \<and> (\<forall>a \<in> set (server_assignments res d). DestinationId a = d)"
    if d: "d \<in> ID ` set ns" for d
  proof -
    from bspec [OF per d] have
      l: "length (lookup_slice (ServerPorts topo) d) = length ns - 1"
      and dist: "length ns - 1 \<le> 2 ^ 32 \<longrightarrow> distinct (lookup_slice (ServerPorts topo) d)"
      and src: "source_nodes (Pairs topo) d = filter (\<lambda>s. s \<noteq> d) (map ID ns)"
      and sa: "server_assignments res d =
              server_built (Pairs topo) d (lookup_slice (ServerPorts topo) d)"
      by simp_all
    have sd: "distinct (source_nodes (Pairs topo) d)"
      using dn by (simp add: src)
    have sl: "length (source_nodes (Pairs topo) d) = length (lookup_slice (ServerPorts topo) d)"
      using d dn length_filter_others [of "map ID ns" d] by (simp add: src l)
    from server_built_ports [OF sd sl] server_built_sources [of "Pairs topo" d]
      server_built_dests [of "Pairs topo" d] l dist src sa
    show ?thesis by simp
  qed
  have pairport: "\<exists>j < length ns - 1.
               SourceId (server_assignments res d ! j) = s
             \<and> DestinationId (server_assignments res d ! j) = d
             \<and> DestinationPort (server_assignments res d ! j) =
                 lookup_slice (ServerPorts topo) d ! j
             \<and> map DestinationPort
                 (filter (\<lambda>c. DestinationId c = d) (client_assignments res s)) =
                 [DestinationPort (server_assignments res d ! j)]"
    if s: "s \<in> ID ` set ns" and d: "d \<in> ID ` set ns" and sd: "s \<noteq> d" for s d
  proof -
    let ?others = "filter (\<lambda>x. x \<noteq> d) (map ID ns)"
    let ?SA = "server_assignments res d"
    let ?SPd = "lookup_slice (ServerPorts topo) d"
    from bspec [OF per d] have src: "source_nodes (Pairs topo) d = ?others" by simp
    from srv [OF d] have l: "length ?SPd = length ns - 1"
      and ms: "map SourceId ?SA = ?others" and mp: "map DestinationPort ?SA = ?SPd"
      and md: "\<forall>a \<in> set ?SA. DestinationId a = d"
      by simp_all
    have od: "distinct ?others" using dn by simp
    from s sd have "s \<in> set ?others" by auto
    from find_index_member [OF od this] obtain j where
      j: "j < length ?others" "?others ! j = s" "find_index ?others s 0 = int j"
      by blast
    from ms have lsa: "length ?SA = length ?others"
      by (metis length_map)
    from mp l have lsa': "length ?SA = length ns - 1"
      by (metis length_map)
    from j lsa lsa' have jn: "j < length ns - 1" and jsa: "j < length ?SA" by simp_all
    from ms jsa j have a1: "SourceId (?SA ! j) = s"
      by (metis nth_map)
    from md jsa have a2: "DestinationId (?SA ! j) = d"
      by simp
    from mp jsa have a3: "DestinationPort (?SA ! j) = ?SPd ! j"
      by (metis nth_map)
    let ?ps = "lookup_slice (ClientTests topo) s"
    let ?F = "filter (\<lambda>p. ID (Destination p) = d) ?ps"
    from bspec [OF per s] have ca: "client_assignments res s =
        map (\<lambda>p. pb_pair p (client_port topo p)) ?ps"
      by simp
    from ct have pe: "map pair_ends ?ps = filter (\<lambda>e. fst e = s) (map pair_ends (Pairs topo))"
      by (simp add: ct_inv_def)
    have "map pair_ends ?F = filter (\<lambda>e. snd e = d) (map pair_ends ?ps)"
      by (simp add: filter_map comp_def pair_ends_def)
    also have "\<dots> = filter (\<lambda>e. e = (s, d)) (ordered_pairs ns)"
      unfolding pe E by (auto intro: filter_cong)
    also have "\<dots> = [(s, d)]"
      using s d sd dn by (intro filter_eq_distinct distinct_ordered_pairs) (auto simp: set_ordered_pairs)
    finally have F: "map pair_ends ?F = [(s, d)]" .
    then obtain p where p: "?F = [p]" "pair_ends p = (s, d)"
      by (cases ?F) auto
    from p(2) have ps: "ID (Source p) = s" "ID (Destination p) = d"
      by (simp_all add: pair_ends_def)
    have cp: "client_port topo p = ?SPd ! j"
      using j(3) by (simp add: client_port_def ps src)
    have "map DestinationPort (filter (\<lambda>c. DestinationId c = d) (client_assignments res s)) =
          map (client_port topo) ?F"
      by (simp add: ca filter_map comp_def pb_pair_fields)
    also have "\<dots> = [?SPd ! j]"
      by (simp add: p(1) cp)
    finally have a4: "map DestinationPort
        (filter (\<lambda>c. DestinationId c = d) (client_assignments res s)) =
        [DestinationPort (?SA ! j)]"
      by (simp add: a3)
    show ?thesis
      by (rule exI [of _ j]) (intro conjI jn a1 a2 a3 a4)
  qed
  have part1: "\<forall>d \<in> ID ` set ns.
           length (lookup_slice (ServerPorts topo) d) = length ns - 1
         \<and> map SourceId (server_assignments res d) = filter (\<lambda>s. s \<noteq> d) (map ID ns)
         \<and> map DestinationPort (server_assignments res d) = lookup_slice (ServerPorts topo) d
         \<and> (length ns - 1 \<le> 2 ^ 32 \<longrightarrow>
               distinct (map DestinationPort (server_assignments res d)))"
  proof
    fix d assume "d \<in> ID ` set ns"
    from srv [OF this]
    show "length (lookup_slice (ServerPorts topo) d) = length ns - 1
         \<and> map SourceId (server_assignments res d) = filter (\<lambda>s. s \<noteq> d) (map ID ns)
         \<and> map DestinationPort (server_assignments res d) = lookup_slice (ServerPorts topo) d
         \<and> (length ns - 1 \<le> 2 ^ 32 \<longrightarrow>
               distinct (map DestinationPort (server_assignments res d)))"
      by (elim conjE) (intro conjI, assumption+)
  qed
  have part2: "\<forall>s \<in> ID ` set ns. \<forall>d \<in> ID ` set ns. s \<noteq> d \<longrightarrow>
           (\<exists>j < length ns - 1.
               SourceId (server_assignments res d ! j) = s
             \<and> DestinationId (server_assignments res d ! j) = d
             \<and> DestinationPort (server_assignments res d ! j) =
                 lookup_slice (ServerPorts topo) d ! j
             \<and> map DestinationPort
                 (filter (\<lambda>c. DestinationId c = d) (client_assignments res s)) =
                 [DestinationPort (server_assignments res d ! j)])"
    by (intro ballI impI pairport)
  show ?thesis
    unfolding ns_def [symmetric]
    by (intro exI [of _ topo] exI [of _ res] conjI gfm gnt ord part1 part2)
qed

lemma full_mesh_iteration_order_rev:
  assumes reg: "gen_nodes g = add_nodes NewNodeRegistry input"
    and n2: "2 \<le> length (GetAllNodes (gen_nodes g))"
    and gfm: "GenerateFullMesh g = Inr topo"
  shows "iteration_order (ServerPorts topo) (rev (ServerPorts topo))"
    and "iteration_order (ClientTests topo) (rev (ClientTests topo))"
proof -
  from reg have dn: "distinct (map ID (GetAllNodes (gen_nodes g)))"
    by (simp add: registry_distinct)
  from mesh_node_topologies [OF dn n2 refl] obtain topo' where
    g': "GenerateFullMesh g = Inr topo'" and ct: "ct_inv topo'"
    and dsp: "distinct (map fst (ServerPorts topo'))"
    by (elim exE conjE)
  from g' gfm have eq: "topo' = topo" by simp
  from dsp show "iteration_order (ServerPorts topo) (rev (ServerPorts topo))"
    by (simp add: iteration_order_def eq rev_map [symmetric])
  from ct show "iteration_order (ClientTests topo) (rev (ClientTests topo))"
    by (simp add: iteration_order_def ct_inv_def eq rev_map [symmetric])
qed

lemma nodes_abc:
  "GetAllNodes (add_nodes NewNodeRegistry [node_a, node_b, node_c]) = [node_a, node_b, node_c]"
  by (simp add: add_nodes_def AddNode_def NewNodeRegistry_def GetAllNodes_def node_a_def
      node_b_def node_c_def)

theorem full_mesh_port_consistency_witness:
  "gen_nodes gen_abc = add_nodes NewNodeRegistry [node_a, node_b, node_c]
   \<and> 2 \<le> length (GetAllNodes (gen_nodes gen_abc))
   \<and> (\<exists>topo res. GenerateFullMesh gen_abc = Inr topo \<and> GenerateNodeTopologies topo = Inr res
        \<and> GenerateNodeTopologies_in_order topo (rev (ServerPorts topo)) (rev (ClientTests topo)) =
            Inr res
        \<and> length (lookup_slice (ServerPorts topo) ''a'') = 2
        \<and> map SourceId (server_assignments res ''a'') = [''b'', ''c'']
        \<and> map DestinationPort (server_assignments res ''a'') = lookup_slice (ServerPorts topo) ''a''
        \<and> distinct (map DestinationPort (server_assignments res ''a''))
        \<and> (\<exists>j < 2. SourceId (server_assignments res ''a'' ! j) = ''b''
              \<and> map DestinationPort
                  (filter (\<lambda>c. DestinationId c = ''a'') (client_assignments res ''b'')) =
                  [DestinationPort (server_assignments res ''a'' ! j)]))"
proof -
  have h1: "gen_nodes gen_abc = add_nodes NewNodeRegistry [node_a, node_b, node_c]"
    by (simp add: gen_abc_def NewGenerator_def)
  have ns: "GetAllNodes (gen_nodes gen_abc) = [node_a, node_b, node_c]"
    unfolding h1 by (rule nodes_abc)
  have h2: "2 \<le> length (GetAllNodes (gen_nodes gen_abc))"
    unfolding ns by simp
  have ids: "ID node_a = ''a''" "ID node_b = ''b''" "ID node_c = ''c''"
    by (simp_all add: node_a_def node_b_def node_c_def)
  from full_mesh_port_consistency [OF h1 h2] obtain topo res where
    gfm: "GenerateFullMesh gen_abc = Inr topo" and gnt: "GenerateNodeTopologies topo = Inr res"
    and ord: "\<forall>spo cto. iteration_order (ServerPorts topo) spo \<longrightarrow>
            iteration_order (ClientTests topo) cto \<longrightarrow>
            GenerateNodeTopologies_in_order topo spo cto = Inr res"
    and p1: "\<forall>d \<in> ID ` set (GetAllNodes (gen_nodes gen_abc)).
           length (lookup_slice (ServerPorts topo) d) = length (GetAllNodes (gen_nodes gen_abc)) - 1
         \<and> map SourceId (server_assignments res d) =
             filter (\<lambda>s. s \<noteq> d) (map ID (GetAllNodes (gen_nodes gen_abc)))
         \<and> map DestinationPort (server_assignments res d) = lookup_slice (ServerPorts topo) d
         \<and> (length (GetAllNodes (gen_nodes gen_abc)) - 1 \<le> 2 ^ 32 \<longrightarrow>
               distinct (map DestinationPort (server_assignments res d)))"
    and p2: "\<forall>s \<in> ID ` set (GetAllNodes (gen_nodes gen_abc)).
         \<forall>d \<in> ID ` set (GetAllNodes (gen_nodes gen_abc)). s \<noteq> d \<longrightarrow>
           (\<exists>j < length (GetAllNodes (gen_nodes gen_abc)) - 1.
               SourceId (server_assignments res d ! j) = s
             \<and> DestinationId (server_assignments res d ! j) = d
             \<and> DestinationPort (server_assignments res d ! j) =
                 lookup_slice (ServerPorts topo) d ! j
             \<and> map DestinationPort
                 (filter (\<lambda>c. DestinationId c = d) (client_assignments res s)) =
                 [DestinationPort (server_assignments res d ! j)])"
    by (elim exE conjE)
  from ord full_mesh_iteration_order_rev [OF h1 h2 gfm]
  have q0: "GenerateNodeTopologies_in_order topo (rev (ServerPorts topo)) (rev (ClientTests topo)) =
      Inr res"
    by (elim allE impE) assumption+
  have a: "''a'' \<in> ID ` set (GetAllNodes (gen_nodes gen_abc))"
    and b: "''b'' \<in> ID ` set (GetAllNodes (gen_nodes gen_abc))"
    unfolding ns by (simp_all add: ids)
  from bspec [OF p1 a] have q1: "length (lookup_slice (ServerPorts topo) ''a'') = 2"
    and q2: "map SourceId (server_assignments res ''a'') = [''b'', ''c'']"
    and q3: "map DestinationPort (server_assignments res ''a'') = lookup_slice (ServerPorts topo) ''a''"
    and q4: "distinct (map DestinationPort (server_assignments res ''a''))"
    unfolding ns by (auto simp: ids)
  have ab: "''b'' \<noteq> ''a''" by simp
  from bspec [OF bspec [OF p2 b] a, THEN mp, OF ab] obtain j where
    j0: "j < length (GetAllNodes (gen_nodes gen_abc)) - 1"
    and j1: "SourceId (server_assignments res ''a'' ! j) = ''b''"
    and j2: "map DestinationPort
        (filter (\<lambda>c. DestinationId c = ''a'') (client_assignments res ''b'')) =
        [DestinationPort (server_assignments res ''a'' ! j)]"
    by (elim exE conjE)
  from j0 have j3: "j < 2" unfolding ns by simp
  note j = j3 j1 j2
  have q5: "\<exists>j < 2. SourceId (server_assignments res ''a'' ! j) = ''b''
              \<and> map DestinationPort
                  (filter (\<lambda>c. DestinationId c = ''a'') (client_assignments res ''b'')) =
                  [DestinationPort (server_assignments res ''a'' ! j)]"
    by (rule exI [of _ j]) (intro conjI j)
  have "\<exists>topo res. GenerateFullMesh gen_abc = Inr topo \<and> GenerateNodeTopologies topo = Inr res
        \<and> GenerateNodeTopologies_in_order topo (rev (ServerPorts topo)) (rev (ClientTests topo)) =
            Inr res
        \<and> length (lookup_slice (ServerPorts topo) ''a'') = 2
        \<and> map SourceId (server_assignments res ''a'') = [''b'', ''c'']
        \<and> map DestinationPort (server_assignments res ''a'') = lookup_slice (ServerPorts topo) ''a''
        \<and> distinct (map DestinationPort (server_assignments res ''a''))
        \<and> (\<exists>j < 2. SourceId (server_assignments res ''a'' ! j) = ''b''
              \<and> map DestinationPort
                  (filter (\<lambda>c. DestinationId c = ''a'') (client_assignments res ''b'')) =
                  [DestinationPort (server_assignments res ''a'' ! j)])"
    by (intro exI [of _ topo] exI [of _ res] conjI gfm gnt q0 q1 q2 q3 q4 q5)
  with h1 h2 show ?thesis by (intro conjI)
qed

text \<open>Scenario E1: the server ports of the three nodes.\<close>

lemma E1_server_ports:
  "map_sum id ServerPorts (GenerateFullMesh gen_abc) =
     Inr [(''a'', [5201, 5202]), (''b'', [5203, 5204]), (''c'', [5205, 5206])]"
proof -
  have ns: "GetAllNodes (gen_nodes gen_abc) = [node_a, node_b, node_c]"
    by (simp add: gen_abc_def NewGenerator_def nodes_abc)
  have ids: "ID node_a = ''a''" "ID node_b = ''b''" "ID node_c = ''c''"
    by (simp_all add: node_a_def node_b_def node_c_def)
  show ?thesis
    unfolding GenerateFullMesh_def ns
    by (simp add: Let_def mesh_outer_server_ports ids eval_nat_numeral)
qed

text \<open>The single-port variant on the three nodes of scenario E1: one port per node, not
  two.\<close>

theorem single_port_variant_counterexample:
  "length (GetAllNodes (gen_nodes gen_abc)) = 3
   \<and> map_sum id ServerPorts (GenerateFullMesh_single_port gen_abc) =
       Inr [(''a'', [5201]), (''b'', [5202]), (''c'', [5203])]"
proof -
  have ns: "GetAllNodes (gen_nodes gen_abc) = [node_a, node_b, node_c]"
    by (simp add: gen_abc_def NewGenerator_def nodes_abc)
  have ids: "ID node_a = ''a''" "ID node_b = ''b''" "ID node_c = ''c''"
    by (simp_all add: node_a_def node_b_def node_c_def)
  show ?thesis
    unfolding GenerateFullMesh_single_port_def ns
    by (simp add: Let_def mesh_outer_server_ports ids)
qed

end
